theory Spec2Isabelle
  imports Complex_Main "HOL-Library.Multiset"
begin

section \<open>Python values, exceptions and containers\<close>

text \<open>
  The exceptions that the modelled code can raise. A function that may raise returns
  \<open>error + 'a\<close>; a method that mutates its object returns the outcome together with
  the object as the exception (or the return) leaves it.
\<close>

datatype error =
  AssertionError | IndexError | ValueError | RuntimeError | ZeroDivisionError | OverflowError

text \<open>
  \<^verbatim>\<open>xs[i]\<close> on a Python list or a one-dimensional tensor: a negative index counts
  from the end, an index outside the sequence raises IndexError.
\<close>

definition getitem :: "'a list \<Rightarrow> int \<Rightarrow> error + 'a" where
  "getitem xs i =
     (let j = (if i < 0 then i + int (length xs) else i)
      in if j < 0 \<or> int (length xs) \<le> j then Inl IndexError else Inr (xs ! nat j))"

text \<open>
  \<^verbatim>\<open>xs[start:]\<close>: a negative start counts from the end and the bounds are clamped to
  the sequence, so a slice never raises.
\<close>

definition slice_from :: "'a list \<Rightarrow> int \<Rightarrow> 'a list" where
  "slice_from xs start =
     (let len = int (length xs);
          s = (if start < 0 then max (start + len) 0 else min start len)
      in drop (nat s) xs)"

text \<open>
  The builtin \<^verbatim>\<open>min\<close> over an iterable: ValueError when it is empty, otherwise the
  first smallest item, found with \<^verbatim>\<open><\<close>. The items are numbers that \<^verbatim>\<open><\<close> orders
  linearly: comparing two numbers does not round.
\<close>

fun py_min :: "'a::linorder list \<Rightarrow> error + 'a" where
  "py_min [] = Inl ValueError"
| "py_min (x # xs) = Inr (fold (\<lambda>y m. if y < m then y else m) xs x)"

text \<open>
  A dict keeps its keys in insertion order; storing under a key that is already present
  replaces the value and leaves the key where it is. \<^verbatim>\<open>{i: xs[i] for i in keys}\<close> reads
  \<^verbatim>\<open>xs[i]\<close> for each key in turn.
\<close>

fun dict_setitem :: "('k \<times> 'v) list \<Rightarrow> 'k \<Rightarrow> 'v \<Rightarrow> ('k \<times> 'v) list" where
  "dict_setitem [] k v = [(k, v)]"
| "dict_setitem (p # ps) k v = (if fst p = k then (k, v) # ps else p # dict_setitem ps k v)"

fun dict_comprehension :: "'a list \<Rightarrow> nat list \<Rightarrow> (nat \<times> 'a) list \<Rightarrow> error + (nat \<times> 'a) list" where
  "dict_comprehension xs [] d = Inr d"
| "dict_comprehension xs (i # keys) d =
     (case getitem xs (int i) of
        Inl e \<Rightarrow> Inl e
      | Inr v \<Rightarrow> dict_comprehension xs keys (dict_setitem d i v))"

definition dict_values :: "('k \<times> 'v) list \<Rightarrow> 'v list" where
  "dict_values d = map snd d"

section \<open>Tensors\<close>

text \<open>
  A tensor is a scalar or a sequence of tensors of one dimension less, its entries the
  numbers that the floats hold. Only the framework operations that \<^verbatim>\<open>utils.py\<close>
  calls on features are modelled: \<^verbatim>\<open>t.shape[0]\<close>, \<^verbatim>\<open>t.unsqueeze(1)\<close> and
  \<^verbatim>\<open>torch.cat((t, u))\<close> along dimension 0. They rearrange entries and compute none,
  so nothing is rounded.
\<close>

datatype tensor = Num real | Tensor "tensor list"

fun shape :: "tensor \<Rightarrow> nat list" where
  "shape (Num x) = []"
| "shape (Tensor []) = [0]"
| "shape (Tensor (t # ts)) = Suc (length ts) # shape t"

fun shape0 :: "tensor \<Rightarrow> error + nat" where
  "shape0 (Num x) = Inl IndexError"
| "shape0 (Tensor ts) = Inr (length ts)"

fun unsqueeze1 :: "tensor \<Rightarrow> error + tensor" where
  "unsqueeze1 (Num x) = Inl IndexError"
| "unsqueeze1 (Tensor ts) = Inr (Tensor (map (\<lambda>t. Tensor [t]) ts))"

fun torch_cat :: "tensor \<Rightarrow> tensor \<Rightarrow> error + tensor" where
  "torch_cat (Tensor ts) (Tensor us) =
     (if tl (shape (Tensor ts)) = tl (shape (Tensor us)) \<or> ts = [] \<or> us = []
      then Inr (Tensor (ts @ us)) else Inl RuntimeError)"
| "torch_cat t u = Inl RuntimeError"

text \<open>The one-dimensional tensor of a list of numbers, and the same numbers as a column.\<close>

definition vector :: "real list \<Rightarrow> tensor" where
  "vector xs = Tensor (map Num xs)"

definition column :: "real list \<Rightarrow> tensor" where
  "column xs = Tensor (map (\<lambda>x. Tensor [Num x]) xs)"

section \<open>DataGenerator\<close>

text \<open>
  The arithmetic of the framework on the entries of the label tensor is a parameter:
  \<open>t_abs\<close> is what \<^verbatim>\<open>abs(labels)\<close> computes for an entry and \<open>t_add l m\<close> what
  \<^verbatim>\<open>labels + m\<close> computes for the entry \<open>l\<close>, with the rounding, the overflow or the
  wrap-around of the dtype of the tensor. \<open>'a\<close> is the type of the entries, numbers
  that \<^verbatim>\<open>min\<close> compares by their order (no entry is not-a-number).
\<close>

record 'a label_ops =
  t_abs :: "'a \<Rightarrow> 'a"
  t_add :: "'a \<Rightarrow> 'a \<Rightarrow> 'a"

text \<open>
  The fields of the class, with their names (\<open>index\<close> is \<^verbatim>\<open>_index\<close>). The labels are a
  one-dimensional tensor of numbers, the secondary labels a one-dimensional tensor of
  class indices or None.
\<close>

record 'a DataGenerator =
  features :: "tensor list"
  labels :: "'a list"
  labels_2 :: "int list option"
  n_nodes :: nat
  n_samples :: nat
  n :: int
  index :: "nat list"
  auto_reset_generator :: bool

text \<open>What \<^verbatim>\<open>next_sample\<close> yields: a pair, or a triple when \<^verbatim>\<open>labels_2\<close> is present.\<close>

datatype 'a sample = Sample2 tensor 'a | Sample3 tensor 'a int

text \<open>One pass of the loop of \<^verbatim>\<open>_parse_features\<close>, and the loop.\<close>

definition parse_feature :: "tensor \<Rightarrow> bool \<Rightarrow> error + tensor" where
  "parse_feature t global_node =
     (if global_node
      then (case torch_cat t (Tensor [Num 0.5]) of Inl e \<Rightarrow> Inl e | Inr c \<Rightarrow> unsqueeze1 c)
      else unsqueeze1 t)"

fun parse_features :: "tensor list \<Rightarrow> bool \<Rightarrow> error + tensor list" where
  "parse_features [] global_node = Inr []"
| "parse_features (t # ts) global_node =
     (case parse_feature t global_node of
        Inl e \<Rightarrow> Inl e
      | Inr c \<Rightarrow> (case parse_features ts global_node of
                   Inl e \<Rightarrow> Inl e
                 | Inr cs \<Rightarrow> Inr (c # cs)))"

text \<open>
  \<^verbatim>\<open>__init__\<close>, statement by statement; an exception leaves no object behind. \<open>L\<close> is
  the arithmetic of the label tensor.
\<close>

definition DataGenerator_init ::
  "'a::linorder label_ops \<Rightarrow> tensor list \<Rightarrow> 'a list \<Rightarrow> int list option \<Rightarrow> bool \<Rightarrow> bool \<Rightarrow> bool
     \<Rightarrow> error + 'a DataGenerator" where
  "DataGenerator_init L fs ls ls2 auto_reset global_node pre_convolved =
     (if length fs \<noteq> length ls then Inl AssertionError
      else case (if pre_convolved then Inr fs else parse_features fs global_node) of
        Inl e \<Rightarrow> Inl e
      | Inr fs' \<Rightarrow>
     (case py_min (map (t_abs L) ls) of
        Inl e \<Rightarrow> Inl e
      | Inr m \<Rightarrow>
     (case getitem fs' 0 of
        Inl e \<Rightarrow> Inl e
      | Inr f0 \<Rightarrow>
     (case shape0 f0 of
        Inl e \<Rightarrow> Inl e
      | Inr nn \<Rightarrow>
     (if (case ls2 of None \<Rightarrow> False | Some l2 \<Rightarrow> length l2 \<noteq> length ls)
      then Inl AssertionError
      else Inr \<lparr>features = fs', labels = map (\<lambda>l. t_add L l m) ls, labels_2 = ls2,
                n_nodes = nn, n_samples = length ls, n = 0,
                index = [0..<length ls], auto_reset_generator = auto_reset\<rparr>)))))"

definition reset_generator :: "'a DataGenerator \<Rightarrow> 'a DataGenerator" where
  "reset_generator g = g\<lparr>n := 0\<rparr>"

text \<open>
  The tuple that both branches of \<^verbatim>\<open>_iterate\<close> build, its components read from left
  to right.
\<close>

definition sample_at :: "'a DataGenerator \<Rightarrow> int \<Rightarrow> error + 'a sample" where
  "sample_at g i =
     (case getitem (features g) i of
        Inl e \<Rightarrow> Inl e
      | Inr f \<Rightarrow>
     (case getitem (labels g) i of
        Inl e \<Rightarrow> Inl e
      | Inr l \<Rightarrow>
     (case labels_2 g of
        None \<Rightarrow> Inr (Sample2 f l)
      | Some l2 \<Rightarrow> (case getitem l2 i of Inl e \<Rightarrow> Inl e | Inr c \<Rightarrow> Inr (Sample3 f l c)))))"

text \<open>
  \<^verbatim>\<open>_iterate\<close> up to its first \<^verbatim>\<open>yield\<close>, which is all that \<^verbatim>\<open>next_sample\<close> runs of
  it. The cursor is advanced before anything is read, so it stays advanced when the read
  raises.
\<close>

definition iterate :: "'a DataGenerator \<Rightarrow> (error + 'a sample) \<times> 'a DataGenerator" where
  "iterate g =
     (let g1 = g\<lparr>n := n g + 1\<rparr>
      in if n g1 = int (n_samples g1) \<and> auto_reset_generator g1
         then (case sample_at g1 (n g1 - 1) of
                 Inl e \<Rightarrow> (Inl e, g1)
               | Inr s \<Rightarrow> (Inr s, reset_generator g1))
         else (sample_at g1 (n g1 - 1), g1))"

definition next_sample :: "'a DataGenerator \<Rightarrow> (error + 'a sample) \<times> 'a DataGenerator" where
  "next_sample g = iterate g"

text \<open>
  \<^verbatim>\<open>shuffle_samples\<close>. The argument \<open>shuffled\<close> is \<^verbatim>\<open>_index\<close> as \<^verbatim>\<open>random.shuffle\<close>
  leaves it: some rearrangement of the list it was given. The outcome is None when the
  method returns, and the exception otherwise.
\<close>

definition shuffle_samples :: "nat list \<Rightarrow> 'a DataGenerator \<Rightarrow> error option \<times> 'a DataGenerator" where
  "shuffle_samples shuffled g =
     (let g1 = g\<lparr>index := shuffled\<rparr>
      in case dict_comprehension (labels g1) (index g1) [] of
        Inl e \<Rightarrow> (Some e, g1)
      | Inr d1 \<Rightarrow>
     (let g2 = g1\<lparr>labels := dict_values d1\<rparr>
      in case dict_comprehension (features g2) (index g2) [] of
        Inl e \<Rightarrow> (Some e, g2)
      | Inr d2 \<Rightarrow>
     (let g3 = g2\<lparr>features := dict_values d2\<rparr>
      in case labels_2 g3 of
        None \<Rightarrow> (None, g3)
      | Some l2 \<Rightarrow>
     (case dict_comprehension l2 (index g3) [] of
        Inl e \<Rightarrow> (Some e, g3)
      | Inr d3 \<Rightarrow> (None, g3\<lparr>labels_2 := Some (dict_values d3)\<rparr>)))))"

text \<open>The generator after \<open>k\<close> consecutive calls of \<^verbatim>\<open>next_sample\<close>.\<close>

primrec after_calls :: "nat \<Rightarrow> 'a DataGenerator \<Rightarrow> 'a DataGenerator" where
  "after_calls 0 g = g"
| "after_calls (Suc k) g = after_calls k (snd (next_sample g))"

text \<open>
  The sample at position \<open>j\<close> in the words of the specification: the feature and the
  label stored at \<open>j\<close>, with the entry of \<^verbatim>\<open>labels_2\<close> at \<open>j\<close> when there is one.
\<close>

definition sample_of :: "'a DataGenerator \<Rightarrow> nat \<Rightarrow> 'a sample" where
  "sample_of g j =
     (case labels_2 g of
        None \<Rightarrow> Sample2 (features g ! j) (labels g ! j)
      | Some l2 \<Rightarrow> Sample3 (features g ! j) (labels g ! j) (l2 ! j))"

text \<open>The invariant of the specification: the parallel series have \<^verbatim>\<open>n_samples\<close> entries.\<close>

definition lengths_inv :: "'a DataGenerator \<Rightarrow> bool" where
  "lengths_inv g \<longleftrightarrow>
     length (features g) = n_samples g \<and> length (labels g) = n_samples g \<and>
     (case labels_2 g of None \<Rightarrow> True | Some l2 \<Rightarrow> length l2 = n_samples g)"

text \<open>
  What the methods maintain besides: \<^verbatim>\<open>_index\<close> is a rearrangement of
  \<^verbatim>\<open>range(n_samples)\<close>, there is at least one sample, the cursor is not negative, and
  with auto-reset it stays below \<^verbatim>\<open>n_samples\<close> between calls.
\<close>

definition generator_ok :: "'a DataGenerator \<Rightarrow> bool" where
  "generator_ok g \<longleftrightarrow>
     lengths_inv g \<and> mset (index g) = mset [0..<n_samples g] \<and> 0 < n_samples g \<and>
     0 \<le> n g \<and> (auto_reset_generator g \<longrightarrow> n g < int (n_samples g))"

text \<open>
  The generators a program can hold: one that \<^verbatim>\<open>__init__\<close> returned, whatever the
  arithmetic of its label tensor, after any number of calls of its methods.
\<close>

inductive reachable :: "'a::linorder DataGenerator \<Rightarrow> bool" where
  constructed: "DataGenerator_init L fs ls ls2 auto_reset global_node pre_convolved = Inr g
     \<Longrightarrow> reachable g"
| sampled: "reachable g \<Longrightarrow> reachable (snd (next_sample g))"
| reset: "reachable g \<Longrightarrow> reachable (reset_generator g)"
| shuffled: "reachable g \<Longrightarrow> mset idx = mset (index g)
     \<Longrightarrow> reachable (snd (shuffle_samples idx g))"

section \<open>R_or_S\<close>

text \<open>
  \<^verbatim>\<open>[0 if 2 ** i <= boundary else 1 for i in MIC]\<close>. The power and the comparison are
  Python's operations on its numbers and are parameters: \<open>pow2 i\<close> is what \<^verbatim>\<open>2 ** i\<close>
  computes, a number or an exception, and \<open>le p b\<close> is what \<^verbatim>\<open>p <= b\<close> computes, a
  truth value or an exception. The comprehension evaluates the entries of \<open>MIC\<close> in
  order, for each the power and then the comparison, and an exception ends it.
\<close>

fun R_or_S ::
  "('a \<Rightarrow> error + 'b) \<Rightarrow> ('b \<Rightarrow> 'c \<Rightarrow> error + bool) \<Rightarrow> 'a list \<Rightarrow> 'c \<Rightarrow> error + int list" where
  "R_or_S pow2 le [] boundary = Inr []"
| "R_or_S pow2 le (i # MIC) boundary =
     (case pow2 i of
        Inl e \<Rightarrow> Inl e
      | Inr p \<Rightarrow>
     (case le p boundary of
        Inl e \<Rightarrow> Inl e
      | Inr c \<Rightarrow>
     (case R_or_S pow2 le MIC boundary of
        Inl e \<Rightarrow> Inl e
      | Inr rest \<Rightarrow> Inr ((if c then 0 else 1) # rest))))"

text \<open>
  \<^verbatim>\<open>2 ** i\<close> for a float \<open>i\<close> whose value is an integer, the float being written as
  that integer: the power is a float that holds \<open>2 ^ i\<close> exactly from \<open>i = -1074\<close>
  to \<open>i = 1023\<close>, it is \<open>0.0\<close> below, and from \<open>i = 1024\<close> on Python raises
  OverflowError. And \<^verbatim>\<open>p <= b\<close> for two floats, written as the numbers they hold: it
  compares the two numbers and raises nothing.
\<close>

definition pow2_whole_float :: "int \<Rightarrow> error + real" where
  "pow2_whole_float i =
     (if 1024 \<le> i then Inl OverflowError
      else if i < - 1074 then Inr 0
      else Inr (2 powi i))"

definition le_float :: "real \<Rightarrow> real \<Rightarrow> error + bool" where
  "le_float p b = Inr (p \<le> b)"

text \<open>The table \<^verbatim>\<open>breakpoints\<close> at the end of \<^verbatim>\<open>utils.py\<close>.\<close>

definition breakpoints :: "string \<rightharpoonup> real" where
  "breakpoints = [''azm'' \<mapsto> 1, ''cfx'' \<mapsto> 0.125, ''cip'' \<mapsto> 0.06, ''cro'' \<mapsto> 0.125]"

section \<open>MetricAccumulator\<close>

text \<open>
  The arithmetic of Python on the recorded metrics is a parameter: \<open>num_sub a b\<close> is
  what \<^verbatim>\<open>a - b\<close> computes, \<open>num_truediv a k\<close> what \<^verbatim>\<open>a / k\<close> computes for the
  length \<open>k\<close> of a list, and \<open>num_round a d\<close> what \<^verbatim>\<open>round(a, d)\<close> computes: a
  number, rounded as the floats round, or an exception, such as the OverflowError of an
  integer too large for a float. \<open>'a\<close> is the type of the numbers.
\<close>

record 'a metric_ops =
  num_sub :: "'a \<Rightarrow> 'a \<Rightarrow> error + 'a"
  num_truediv :: "'a \<Rightarrow> nat \<Rightarrow> error + 'a"
  num_round :: "'a \<Rightarrow> nat \<Rightarrow> error + 'a"

record 'a MetricAccumulator =
  training_data_loss :: "'a list"
  training_data_acc :: "'a list"
  testing_data_loss :: "'a list"
  testing_data_acc :: "'a list"
  training_data_loss_grads :: "'a list"
  training_data_acc_grads :: "'a list"
  testing_data_loss_grads :: "'a list"
  testing_data_acc_grads :: "'a list"
  gradient_batch :: int

definition MetricAccumulator_init :: "int \<Rightarrow> 'a MetricAccumulator" where
  "MetricAccumulator_init batch =
     \<lparr>training_data_loss = [], training_data_acc = [], testing_data_loss = [],
      testing_data_acc = [], training_data_loss_grads = [], training_data_acc_grads = [],
      testing_data_loss_grads = [], testing_data_acc_grads = [], gradient_batch = batch\<rparr>"

text \<open>
  \<^verbatim>\<open>metric_gradient\<close>: the slice \<^verbatim>\<open>x[-batch:]\<close>, its last and its first entry (read in
  this order), their difference, the division by the length of the slice and the
  rounding. \<open>A\<close> is the arithmetic.
\<close>

definition metric_gradient :: "'a metric_ops \<Rightarrow> 'a MetricAccumulator \<Rightarrow> 'a list \<Rightarrow> error + 'a" where
  "metric_gradient A m x =
     (let batch = gradient_batch m;
          data = slice_from x (- batch)
      in case getitem data (- 1) of
        Inl e \<Rightarrow> Inl e
      | Inr final \<Rightarrow>
     (case getitem data 0 of
        Inl e \<Rightarrow> Inl e
      | Inr initial \<Rightarrow>
     (case num_sub A final initial of
        Inl e \<Rightarrow> Inl e
      | Inr change \<Rightarrow>
     (case num_truediv A change (length data) of
        Inl e \<Rightarrow> Inl e
      | Inr q \<Rightarrow> num_round A q 2))))"

text \<open>
  A method of the accumulator returns None, or the exception that stopped it, with the
  accumulator as it then is. \<open>then_run\<close> is the semicolon between two statements.
\<close>

type_synonym 'a step = "'a MetricAccumulator \<Rightarrow> error option \<times> 'a MetricAccumulator"

definition then_run :: "'a step \<Rightarrow> 'a step \<Rightarrow> 'a step" where
  "then_run s1 s2 m = (case s1 m of (None, m1) \<Rightarrow> s2 m1 | (Some e, m1) \<Rightarrow> (Some e, m1))"

text \<open>The four \<^verbatim>\<open>append\<close> statements of \<^verbatim>\<open>add\<close>.\<close>

definition append_training_data_loss :: "'a list \<Rightarrow> 'a step" where
  "append_training_data_loss epoch_results m =
     (case getitem epoch_results 0 of
        Inl e \<Rightarrow> (Some e, m)
      | Inr v \<Rightarrow> (None, m\<lparr>training_data_loss := training_data_loss m @ [v]\<rparr>))"

definition append_training_data_acc :: "'a list \<Rightarrow> 'a step" where
  "append_training_data_acc epoch_results m =
     (case getitem epoch_results 1 of
        Inl e \<Rightarrow> (Some e, m)
      | Inr v \<Rightarrow> (None, m\<lparr>training_data_acc := training_data_acc m @ [v]\<rparr>))"

definition append_testing_data_loss :: "'a list \<Rightarrow> 'a step" where
  "append_testing_data_loss epoch_results m =
     (case getitem epoch_results 2 of
        Inl e \<Rightarrow> (Some e, m)
      | Inr v \<Rightarrow> (None, m\<lparr>testing_data_loss := testing_data_loss m @ [v]\<rparr>))"

definition append_testing_data_acc :: "'a list \<Rightarrow> 'a step" where
  "append_testing_data_acc epoch_results m =
     (case getitem epoch_results 3 of
        Inl e \<Rightarrow> (Some e, m)
      | Inr v \<Rightarrow> (None, m\<lparr>testing_data_acc := testing_data_acc m @ [v]\<rparr>))"

text \<open>The four \<^verbatim>\<open>append\<close> statements of \<^verbatim>\<open>_all_grads\<close>.\<close>

definition append_training_data_loss_grads :: "'a metric_ops \<Rightarrow> 'a step" where
  "append_training_data_loss_grads A m =
     (case metric_gradient A m (training_data_loss m) of
        Inl e \<Rightarrow> (Some e, m)
      | Inr v \<Rightarrow> (None, m\<lparr>training_data_loss_grads := training_data_loss_grads m @ [v]\<rparr>))"

definition append_training_data_acc_grads :: "'a metric_ops \<Rightarrow> 'a step" where
  "append_training_data_acc_grads A m =
     (case metric_gradient A m (training_data_acc m) of
        Inl e \<Rightarrow> (Some e, m)
      | Inr v \<Rightarrow> (None, m\<lparr>training_data_acc_grads := training_data_acc_grads m @ [v]\<rparr>))"

definition append_testing_data_loss_grads :: "'a metric_ops \<Rightarrow> 'a step" where
  "append_testing_data_loss_grads A m =
     (case metric_gradient A m (testing_data_loss m) of
        Inl e \<Rightarrow> (Some e, m)
      | Inr v \<Rightarrow> (None, m\<lparr>testing_data_loss_grads := testing_data_loss_grads m @ [v]\<rparr>))"

definition append_testing_data_acc_grads :: "'a metric_ops \<Rightarrow> 'a step" where
  "append_testing_data_acc_grads A m =
     (case metric_gradient A m (testing_data_acc m) of
        Inl e \<Rightarrow> (Some e, m)
      | Inr v \<Rightarrow> (None, m\<lparr>testing_data_acc_grads := testing_data_acc_grads m @ [v]\<rparr>))"

definition all_grads :: "'a metric_ops \<Rightarrow> 'a step" where
  "all_grads A =
     then_run (append_training_data_loss_grads A)
    (then_run (append_training_data_acc_grads A)
    (then_run (append_testing_data_loss_grads A)
              (append_testing_data_acc_grads A)))"

definition add :: "'a metric_ops \<Rightarrow> 'a list \<Rightarrow> 'a step" where
  "add A epoch_results =
     then_run (append_training_data_loss epoch_results)
    (then_run (append_training_data_acc epoch_results)
    (then_run (append_testing_data_loss epoch_results)
    (then_run (append_testing_data_acc epoch_results)
              (all_grads A))))"

text \<open>
  A run of \<^verbatim>\<open>add\<close> calls, one per entry of \<open>rs\<close>, each on the accumulator that the
  call before it left, whether that call returned or raised; the outcomes come with it.
\<close>

fun add_all ::
  "'a metric_ops \<Rightarrow> 'a list list \<Rightarrow> 'a MetricAccumulator
     \<Rightarrow> error option list \<times> 'a MetricAccumulator" where
  "add_all A [] m = ([], m)"
| "add_all A (r # rs) m =
     (case add A r m of (outcome, m1) \<Rightarrow>
        (case add_all A rs m1 of (outcomes, m2) \<Rightarrow> (outcome # outcomes, m2)))"

text \<open>The eight series of an accumulator, in the order of their declaration.\<close>

definition series :: "'a MetricAccumulator \<Rightarrow> 'a list list" where
  "series m =
     [training_data_loss m, training_data_acc m, testing_data_loss m, testing_data_acc m,
      training_data_loss_grads m, training_data_acc_grads m, testing_data_loss_grads m,
      testing_data_acc_grads m]"

text \<open>
  The trailing window in the words of the specification: the last \<open>b\<close> recorded
  epochs, or all of them when fewer have been recorded. And the slope over a window: the
  change of the metric between its first and its last entry, divided by the number of its
  entries and rounded to two decimal places; an empty window has no first and no last
  entry to read.
\<close>

definition trailing_window :: "nat \<Rightarrow> 'a list \<Rightarrow> 'a list" where
  "trailing_window b x = drop (length x - b) x"

definition window_slope :: "'a metric_ops \<Rightarrow> 'a list \<Rightarrow> error + 'a" where
  "window_slope A w =
     (if w = [] then Inl IndexError
      else case num_sub A (last w) (hd w) of
        Inl e \<Rightarrow> Inl e
      | Inr change \<Rightarrow>
     (case num_truediv A change (length w) of
        Inl e \<Rightarrow> Inl e
      | Inr q \<Rightarrow> num_round A q 2))"

text \<open>
  A gradient series \<open>new\<close> is the series \<open>old\<close> with one value appended, the slope of
  \<open>metric\<close> over the slice \<^verbatim>\<open>metric[-b:]\<close>.
\<close>

definition appended_slope :: "'a metric_ops \<Rightarrow> int \<Rightarrow> 'a list \<Rightarrow> 'a list \<Rightarrow> 'a list \<Rightarrow> bool" where
  "appended_slope A b metric old new \<longleftrightarrow>
     (\<exists>v. new = old @ [v] \<and> window_slope A (slice_from metric (- b)) = Inr v)"

text \<open>
  An arithmetic without rounding and without overflow, on real numbers: the exact
  difference, the exact quotient, and the multiple of \<open>10 ^ - d\<close> nearest to the exact
  number, a tie going to the even one. Python computes the same wherever the numbers
  and every intermediate result are held exactly by a float, as in the runs evaluated
  below. Elsewhere its floats round (\<^verbatim>\<open>round(0.25 / 10, 2)\<close> is \<open>0.03\<close>, the float
  \<open>0.025\<close> lying above \<open>1/40\<close>) or overflow, so this arithmetic serves only to
  evaluate such runs, and the general theorems on the accumulator are about every
  arithmetic.
\<close>

definition round_half_even :: "real \<Rightarrow> int" where
  "round_half_even y =
     (let f = \<lfloor>y\<rfloor>; d = y - of_int f
      in if d < 1 / 2 then f else if 1 / 2 < d then f + 1 else if even f then f else f + 1)"

definition exact_metrics :: "real metric_ops" where
  "exact_metrics =
     \<lparr>num_sub = (\<lambda>a b. Inr (a - b)),
      num_truediv = (\<lambda>a k. if k = 0 then Inl ZeroDivisionError else Inr (a / real k)),
      num_round = (\<lambda>a d. Inr (of_int (round_half_even (a * 10 ^ d)) / 10 ^ d))\<rparr>"

section \<open>The models\<close>

text \<open>
  \<^verbatim>\<open>model.py\<close> only composes operations of the deep-learning framework, which are
  parameters here: \<open>'t\<close> is the type of tensors, \<open>'l\<close> the type of an \<^verbatim>\<open>nn.Linear\<close>
  module (its weight and bias) and \<open>'k\<close> the random draw of one call of
  \<^verbatim>\<open>F.dropout\<close>. \<open>transpose01\<close> is \<^verbatim>\<open>t.transpose(0, 1)\<close> and \<open>getitem00\<close> is
  \<^verbatim>\<open>t[0][0]\<close>.
\<close>

record ('t, 'l, 'k) framework =
  nn_Linear :: "'l \<Rightarrow> 't \<Rightarrow> 't"
  F_leaky_relu :: "'t \<Rightarrow> 't"
  F_dropout :: "'k \<Rightarrow> 't \<Rightarrow> real \<Rightarrow> 't"
  transpose01 :: "'t \<Rightarrow> 't"
  getitem00 :: "'t \<Rightarrow> 't"

text \<open>The attributes that \<^verbatim>\<open>VanillaNN.__init__\<close> sets; \<^verbatim>\<open>MICPredictor\<close> inherits them.\<close>

record 'l VanillaNN =
  linear1 :: 'l
  linear2 :: 'l
  linear3 :: 'l
  dropout :: real

text \<open>
  \<^verbatim>\<open>VanillaNN.forward\<close>, statement by statement. \<^verbatim>\<open>F.dropout(..., inplace=True)\<close>
  overwrites \<^verbatim>\<open>x\<close>; \<open>k1\<close> and \<open>k2\<close> are the draws of its two calls. The argument
  \<^verbatim>\<open>adj\<close> is not used.
\<close>

definition VanillaNN_forward ::
  "('t, 'l, 'k) framework \<Rightarrow> 'l VanillaNN \<Rightarrow> 'k \<Rightarrow> 'k \<Rightarrow> 't \<Rightarrow> 'a option \<Rightarrow> 't" where
  "VanillaNN_forward F self k1 k2 x adj =
     (let x = F_leaky_relu F (nn_Linear F (linear1 self) (transpose01 F x));
          x = F_dropout F k1 x (dropout self);
          x = F_leaky_relu F (nn_Linear F (linear2 self) x);
          x = F_dropout F k2 x (dropout self);
          out = F_leaky_relu F (getitem00 F (nn_Linear F (linear3 self) x))
      in out)"

text \<open>\<^verbatim>\<open>MICPredictor.forward\<close>: the same statements, returning \<^verbatim>\<open>(out, x)\<close>.\<close>

definition MICPredictor_forward ::
  "('t, 'l, 'k) framework \<Rightarrow> 'l VanillaNN \<Rightarrow> 'k \<Rightarrow> 'k \<Rightarrow> 't \<Rightarrow> 't \<times> 't" where
  "MICPredictor_forward F self k1 k2 x =
     (let x = F_leaky_relu F (nn_Linear F (linear1 self) (transpose01 F x));
          x = F_dropout F k1 x (dropout self);
          x = F_leaky_relu F (nn_Linear F (linear2 self) x);
          x = F_dropout F k2 x (dropout self);
          out = F_leaky_relu F (getitem00 F (nn_Linear F (linear3 self) x))
      in (out, x))"

text \<open>
  The forward pass in the words of the specification: two stacked linear layers, each
  followed by a nonlinearity and dropout.
\<close>

definition two_stacked_layers ::
  "('t, 'l, 'k) framework \<Rightarrow> 'l VanillaNN \<Rightarrow> 'k \<Rightarrow> 'k \<Rightarrow> 't \<Rightarrow> 't" where
  "two_stacked_layers F self k1 k2 x =
     F_dropout F k2 (F_leaky_relu F (nn_Linear F (linear2 self)
       (F_dropout F k1 (F_leaky_relu F (nn_Linear F (linear1 self) x)) (dropout self))))
       (dropout self)"

text \<open>
  The framework on tensors with a single entry, written as that entry: a linear module is
  its weight and its bias, \<^verbatim>\<open>leaky_relu\<close> has the default slope \<open>0.01\<close>, and a draw of
  \<^verbatim>\<open>dropout\<close> says whether the entry is kept, and then scaled by \<open>1 / (1 - p)\<close>, or
  zeroed. And a model with one feature, one unit in each hidden layer, one output and
  dropout \<open>0.5\<close>.
\<close>

definition scalar_framework :: "(real, real \<times> real, bool) framework" where
  "scalar_framework =
     \<lparr>nn_Linear = (\<lambda>(w, b) x. x * w + b),
      F_leaky_relu = (\<lambda>x. if 0 \<le> x then x else x / 100),
      F_dropout = (\<lambda>keep x p. if keep then x / (1 - p) else 0),
      transpose01 = (\<lambda>x. x),
      getitem00 = (\<lambda>x. x)\<rparr>"

definition small_net :: "(real \<times> real) VanillaNN" where
  "small_net = \<lparr>linear1 = (3, 1), linear2 = (1, - 10), linear3 = (2, 1), dropout = 0.5\<rparr>"

section \<open>Three small generators\<close>

text \<open>
  The arithmetic of a label tensor of dtype \<^verbatim>\<open>int64\<close>, on the integers from \<open>-2^63\<close> to
  \<open>2^63 - 1\<close>: \<^verbatim>\<open>abs\<close> and \<^verbatim>\<open>+\<close> wrap around.
\<close>

definition wrap_int64 :: "int \<Rightarrow> int" where
  "wrap_int64 x = (x + 2 ^ 63) mod 2 ^ 64 - 2 ^ 63"

definition int64_labels :: "int label_ops" where
  "int64_labels = \<lparr>t_abs = (\<lambda>l. wrap_int64 \<bar>l\<bar>), t_add = (\<lambda>l m. wrap_int64 (l + m))\<rparr>"

text \<open>
  What \<^verbatim>\<open>__init__\<close> returns for two samples with the features \<open>[1, 2]\<close> and
  \<open>[3, 4]\<close> and the \<^verbatim>\<open>int64\<close> labels \<open>[-3, 1]\<close>: with auto-reset, the global node
  and secondary labels, and without any of them; and for one sample given pre-convolved.
\<close>

definition gen_auto :: "int DataGenerator" where
  "gen_auto = \<lparr>features = [column [1, 2, 0.5], column [3, 4, 0.5]], labels = [-2, 2],
     labels_2 = Some [7, 8], n_nodes = 3, n_samples = 2, n = 0, index = [0, 1],
     auto_reset_generator = True\<rparr>"

definition gen_manual :: "int DataGenerator" where
  "gen_manual = \<lparr>features = [column [1, 2], column [3, 4]], labels = [-2, 2],
     labels_2 = None, n_nodes = 2, n_samples = 2, n = 0, index = [0, 1],
     auto_reset_generator = False\<rparr>"

definition gen_given :: "int DataGenerator" where
  "gen_given = \<lparr>features = [Tensor [Tensor [Num 1, Num 2], Tensor [Num 3, Num 4]]],
     labels = [2], labels_2 = None, n_nodes = 2, n_samples = 1, n = 0, index = [0],
     auto_reset_generator = True\<rparr>"

section \<open>A small accumulator\<close>

text \<open>
  The accumulator with a window of two epochs after two calls of \<^verbatim>\<open>add\<close>, with the
  results \<open>[1, 2, 3, 4]\<close> and \<open>[2, 3, 4, 5]\<close>.
\<close>

definition acc_two :: "real MetricAccumulator" where
  "acc_two =
     \<lparr>training_data_loss = [1, 2], training_data_acc = [2, 3], testing_data_loss = [3, 4],
      testing_data_acc = [4, 5], training_data_loss_grads = [0, 0.5],
      training_data_acc_grads = [0, 0.5], testing_data_loss_grads = [0, 0.5],
      testing_data_acc_grads = [0, 0.5], gradient_batch = 2\<rparr>"

section \<open>Properties of the containers and of DataGenerator\<close>

subsection \<open>Containers\<close>

lemma getitem_nat:
  "getitem xs (int i) = (if i < length xs then Inr (xs ! i) else Inl IndexError)"
  by (simp add: getitem_def)

lemma dict_setitem_fresh: "k \<notin> fst ` set d \<Longrightarrow> dict_setitem d k v = d @ [(k, v)]"
  by (induction d) auto

lemma dict_comprehension_distinct:
  "distinct keys \<Longrightarrow> set keys \<inter> fst ` set d = {} \<Longrightarrow> \<forall>i \<in> set keys. i < length xs \<Longrightarrow>
   dict_comprehension xs keys d = Inr (d @ map (\<lambda>i. (i, xs ! i)) keys)"
proof (induction keys arbitrary: d)
  case Nil
  then show ?case by simp
next
  case (Cons i keys)
  have fresh: "i \<notin> fst ` set d" using Cons.prems(2) by auto
  have "set keys \<inter> fst ` set (d @ [(i, xs ! i)]) = {}"
    using Cons.prems(1,2) by auto
  with Cons show ?case
    by (simp add: getitem_nat dict_setitem_fresh [OF fresh])
qed

lemma dict_comprehension_range:
  assumes "mset keys = mset [0..<length xs]"
  shows "dict_comprehension xs keys [] = Inr (map (\<lambda>i. (i, xs ! i)) keys)"
proof -
  have d: "distinct keys"
    using assms mset_eq_imp_distinct_iff [of keys "[0..<length xs]"] by simp
  have "set keys = {0..<length xs}"
    using mset_eq_setD [OF assms] by simp
  then have "\<forall>i \<in> set keys. i < length xs" by simp
  with d show ?thesis
    using dict_comprehension_distinct [of keys "[]" xs] by simp
qed

lemma py_min_Min:
  fixes xs :: "'a::linorder list"
  assumes "xs \<noteq> []"
  shows "py_min xs = Inr (Min (set xs))"
proof -
  have f: "(\<lambda>y m. if y < m then y else m) = (min :: 'a \<Rightarrow> 'a \<Rightarrow> 'a)"
    by (auto simp: fun_eq_iff min_def)
  from assms obtain a list where "xs = a # list" by (cases xs) auto
  then show ?thesis
    using Min.set_eq_fold [of a list] by (simp add: f)
qed

subsection \<open>Construction\<close>

lemma parse_features_length:
  "parse_features fs gn = Inr cs \<Longrightarrow> length cs = length fs"
  by (induction fs arbitrary: cs) (auto split: sum.splits)

lemma init_Inr:
  assumes "DataGenerator_init L fs ls ls2 ar gn pc = Inr g"
  shows "length fs = length ls" and "ls \<noteq> []"
    and "(case ls2 of None \<Rightarrow> True | Some l2 \<Rightarrow> length l2 = length ls)"
    and "labels g = map (\<lambda>l. t_add L l (Min (t_abs L ` set ls))) ls"
    and "labels_2 g = ls2" and "n_samples g = length ls" and "n g = 0"
    and "index g = [0..<length ls]" and "auto_reset_generator g = ar"
    and "(if pc then Inr fs else parse_features fs gn) = Inr (features g)"
  using assms py_min_Min [of "map (t_abs L) ls"]
  by (cases "ls = []"; auto simp: DataGenerator_init_def split: if_splits sum.splits option.splits)+

lemma init_ok:
  assumes "DataGenerator_init L fs ls ls2 ar gn pc = Inr g"
  shows "generator_ok g"
proof -
  note f = init_Inr [OF assms]
  have "length (features g) = length fs"
    using f(10) parse_features_length [of fs gn "features g"] by (auto split: if_splits)
  with f show ?thesis
    by (auto simp: generator_ok_def lengths_inv_def split: option.splits)
qed

subsection \<open>next_sample\<close>

lemma sample_at_ok:
  "lengths_inv g \<Longrightarrow> j < n_samples g \<Longrightarrow> sample_at g (int j) = Inr (sample_of g j)"
  by (auto simp: sample_at_def sample_of_def lengths_inv_def getitem_nat split: option.splits)

lemma sample_at_out:
  "lengths_inv g \<Longrightarrow> n_samples g \<le> j \<Longrightarrow> sample_at g (int j) = Inl IndexError"
  by (auto simp: sample_at_def lengths_inv_def getitem_nat split: option.splits)

lemma lengths_inv_n [simp]: "lengths_inv (g\<lparr>n := c\<rparr>) = lengths_inv g"
  by (simp add: lengths_inv_def cong: option.case_cong)

lemma sample_of_n [simp]: "sample_of (g\<lparr>n := c\<rparr>) j = sample_of g j"
  by (simp add: sample_of_def cong: option.case_cong)

lemma sample_at_n [simp]: "sample_at (g\<lparr>n := c\<rparr>) j = sample_at g j"
  by (simp add: sample_at_def cong: option.case_cong sum.case_cong)

lemma next_sample_auto:
  assumes "generator_ok g" "auto_reset_generator g"
  shows "next_sample g =
    (Inr (sample_of g (nat (n g))), g\<lparr>n := (n g + 1) mod int (n_samples g)\<rparr>)"
proof -
  from assms have inv: "lengths_inv g" and c: "0 \<le> n g" "n g < int (n_samples g)"
    by (auto simp: generator_ok_def)
  have s: "sample_at g (n g) = Inr (sample_of g (nat (n g)))"
    using sample_at_ok [OF inv, of "nat (n g)"] c by simp
  show ?thesis
  proof (cases "n g + 1 = int (n_samples g)")
    case True
    then have "int (n_samples g) - 1 = n g" "(n g + 1) mod int (n_samples g) = 0" by simp_all
    then show ?thesis
      using assms(2) s by (simp add: next_sample_def iterate_def reset_generator_def Let_def)
  next
    case False
    with c have "(n g + 1) mod int (n_samples g) = n g + 1" by simp
    with False show ?thesis
      using s by (simp add: next_sample_def iterate_def Let_def)
  qed
qed

lemma next_sample_manual:
  assumes "generator_ok g" "\<not> auto_reset_generator g"
  shows "next_sample g =
    (if n g < int (n_samples g) then Inr (sample_of g (nat (n g))) else Inl IndexError,
     g\<lparr>n := n g + 1\<rparr>)"
proof -
  from assms have inv: "lengths_inv g" and c: "0 \<le> n g"
    by (auto simp: generator_ok_def)
  have "sample_at g (n g) =
      (if n g < int (n_samples g) then Inr (sample_of g (nat (n g))) else Inl IndexError)"
    using sample_at_ok [OF inv, of "nat (n g)"] sample_at_out [OF inv, of "nat (n g)"] c
    by auto
  then show ?thesis
    using assms(2) by (simp add: next_sample_def iterate_def Let_def)
qed

lemma generator_ok_next: "generator_ok g \<Longrightarrow> generator_ok (snd (next_sample g))"
proof (cases "auto_reset_generator g")
  case True
  assume ok: "generator_ok g"
  then have "0 < int (n_samples g)" by (simp add: generator_ok_def)
  then show ?thesis
    using ok True by (simp add: next_sample_auto generator_ok_def)
next
  case False
  assume "generator_ok g"
  then show ?thesis
    using False by (simp add: next_sample_manual generator_ok_def)
qed

lemma generator_ok_reset: "generator_ok g \<Longrightarrow> generator_ok (reset_generator g)"
  by (simp add: generator_ok_def reset_generator_def)

lemma after_calls_auto:
  "generator_ok g \<Longrightarrow> auto_reset_generator g \<Longrightarrow>
   after_calls k g = g\<lparr>n := (n g + int k) mod int (n_samples g)\<rparr>"
proof (induction k arbitrary: g)
  case 0
  then show ?case by (simp add: generator_ok_def)
next
  case (Suc k)
  let ?g = "snd (next_sample g)"
  have g': "?g = g\<lparr>n := (n g + 1) mod int (n_samples g)\<rparr>"
    using Suc.prems by (simp add: next_sample_auto)
  have "generator_ok ?g" "auto_reset_generator ?g"
    using Suc.prems generator_ok_next [of g] g' by simp_all
  from Suc.IH [OF this] show ?case
    by (simp add: g' mod_add_left_eq add.assoc)
qed

lemma after_calls_manual:
  "generator_ok g \<Longrightarrow> \<not> auto_reset_generator g \<Longrightarrow> after_calls k g = g\<lparr>n := n g + int k\<rparr>"
proof (induction k arbitrary: g)
  case 0
  then show ?case by simp
next
  case (Suc k)
  let ?g = "snd (next_sample g)"
  have g': "?g = g\<lparr>n := n g + 1\<rparr>"
    using Suc.prems by (simp add: next_sample_manual)
  have "generator_ok ?g" "\<not> auto_reset_generator ?g"
    using Suc.prems generator_ok_next [of g] g' by simp_all
  from Suc.IH [OF this] show ?case
    by (simp add: g' add.assoc)
qed

lemma generator_ok_n: "generator_ok g \<Longrightarrow> 0 \<le> c \<Longrightarrow> (auto_reset_generator g \<longrightarrow> c < int (n_samples g)) \<Longrightarrow> generator_ok (g\<lparr>n := c\<rparr>)"
  by (simp add: generator_ok_def)

subsection \<open>shuffle_samples\<close>

lemma shuffle_samples_eq:
  assumes "generator_ok g" "mset idx = mset (index g)"
  shows "shuffle_samples idx g =
    (None, g\<lparr>index := idx,
             labels := map ((!) (labels g)) idx,
             features := map ((!) (features g)) idx,
             labels_2 := map_option (\<lambda>l2. map ((!) l2) idx) (labels_2 g)\<rparr>)"
proof -
  from assms have p: "mset idx = mset [0..<n_samples g]"
    and len: "length (labels g) = n_samples g" "length (features g) = n_samples g"
    by (auto simp: generator_ok_def lengths_inv_def)
  have l: "dict_comprehension (labels g) idx [] = Inr (map (\<lambda>i. (i, labels g ! i)) idx)"
    using dict_comprehension_range [of idx "labels g"] p len by simp
  have f: "dict_comprehension (features g) idx [] = Inr (map (\<lambda>i. (i, features g ! i)) idx)"
    using dict_comprehension_range [of idx "features g"] p len by simp
  show ?thesis
  proof (cases "labels_2 g")
    case None
    then show ?thesis
      by (simp add: shuffle_samples_def Let_def l f dict_values_def comp_def)
  next
    case (Some l2)
    with assms have "length l2 = n_samples g"
      by (simp add: generator_ok_def lengths_inv_def)
    then have "dict_comprehension l2 idx [] = Inr (map (\<lambda>i. (i, l2 ! i)) idx)"
      using dict_comprehension_range [of idx l2] p by simp
    with Some show ?thesis
      by (simp add: shuffle_samples_def Let_def l f dict_values_def comp_def)
  qed
qed

lemma generator_ok_shuffle:
  assumes "generator_ok g" "mset idx = mset (index g)"
  shows "generator_ok (snd (shuffle_samples idx g))"
proof -
  from assms have "mset idx = mset [0..<n_samples g]" by (simp add: generator_ok_def)
  then have "length idx = n_samples g"
    using mset_eq_length [of idx "[0..<n_samples g]"] by simp
  with assms show ?thesis
    by (auto simp: shuffle_samples_eq generator_ok_def lengths_inv_def split: option.splits)
qed

lemma reachable_ok: "reachable g \<Longrightarrow> generator_ok g"
  by (induction rule: reachable.induct)
     (simp_all add: init_ok generator_ok_next generator_ok_reset generator_ok_shuffle)

subsection \<open>The small generators are constructed ones\<close>

lemmas init_simps = DataGenerator_init_def parse_feature_def vector_def column_def getitem_def
  int64_labels_def wrap_int64_def

lemma init_gen_auto:
  "DataGenerator_init int64_labels [vector [1, 2], vector [3, 4]] [-3, 1] (Some [7, 8]) True True False
     = Inr gen_auto"
  by (simp add: init_simps gen_auto_def)

lemma init_gen_manual:
  "DataGenerator_init int64_labels [vector [1, 2], vector [3, 4]] [-3, 1] None False False False
     = Inr gen_manual"
  by (simp add: init_simps gen_manual_def)

lemma reachable_gen_auto: "reachable gen_auto"
  using init_gen_auto by (rule reachable.constructed)

lemma reachable_gen_manual: "reachable gen_manual"
  using init_gen_manual by (rule reachable.constructed)

subsection \<open>Cycling through the samples\<close>

text \<open>
  Claim C1. A generator that was constructed with \<^verbatim>\<open>auto_reset_generator=True\<close> and
  whose cursor is at 0 yields, on its \<open>k\<close>-th consecutive call of \<^verbatim>\<open>next_sample\<close>
  with \<open>1 \<le> k \<le> n_samples\<close>, the sample at index \<open>k - 1\<close>: the stored feature and
  label, with the entry of \<^verbatim>\<open>labels_2\<close> when it is present. The \<^verbatim>\<open>n_samples\<close>-th
  call resets the cursor to 0 and leaves the generator as it was before the first call, so
  the calls repeat the same sequence: call \<open>k\<close> yields the sample at index
  \<open>(k - 1) mod n_samples\<close>.
\<close>

theorem next_sample_cycles:
  assumes "reachable g" and "auto_reset_generator g" and "n g = 0"
  shows "(\<forall>k. 1 \<le> k \<and> k \<le> n_samples g \<longrightarrow>
            fst (next_sample (after_calls (k - 1) g)) = Inr (sample_of g (k - 1)))
       \<and> n (after_calls (n_samples g) g) = 0
       \<and> after_calls (n_samples g) g = g
       \<and> (\<forall>k. 1 \<le> k \<longrightarrow>
            fst (next_sample (after_calls (k - 1) g)) = Inr (sample_of g ((k - 1) mod n_samples g)))"
proof -
  have ok: "generator_ok g" using assms(1) by (rule reachable_ok)
  then have pos: "0 < n_samples g" by (simp add: generator_ok_def)
  have st: "after_calls j g = g\<lparr>n := int (j mod n_samples g)\<rparr>" for j
    using after_calls_auto [OF ok assms(2), of j] assms(3) by (simp add: zmod_int)
  have res: "fst (next_sample (after_calls j g)) = Inr (sample_of g (j mod n_samples g))" for j
  proof -
    have "generator_ok (g\<lparr>n := int (j mod n_samples g)\<rparr>)"
      using ok pos by (intro generator_ok_n) simp_all
    then show ?thesis
      using assms(2) by (simp add: st next_sample_auto)
  qed
  have again: "after_calls (n_samples g) g = g"
    using st [of "n_samples g"] assms(3) by simp
  have first: "fst (next_sample (after_calls (k - 1) g)) = Inr (sample_of g (k - 1))"
    if "1 \<le> k \<and> k \<le> n_samples g" for k
  proof -
    from that have "k - 1 < n_samples g" by arith
    then have "(k - 1) mod n_samples g = k - 1" by simp
    with res [of "k - 1"] show ?thesis by simp
  qed
  show ?thesis
    using first res again assms(3) by simp
qed

text \<open>The two-sample generator with auto-reset: calls 1, 2 and 3.\<close>

theorem next_sample_cycles_witness:
  "reachable gen_auto \<and> auto_reset_generator gen_auto \<and> n gen_auto = 0
   \<and> fst (next_sample (after_calls 0 gen_auto)) = Inr (Sample3 (column [1, 2, 0.5]) (-2) 7)
   \<and> fst (next_sample (after_calls 1 gen_auto)) = Inr (Sample3 (column [3, 4, 0.5]) 2 8)
   \<and> after_calls 2 gen_auto = gen_auto
   \<and> fst (next_sample (after_calls 2 gen_auto)) = Inr (Sample3 (column [1, 2, 0.5]) (-2) 7)"
proof -
  have h: "auto_reset_generator gen_auto" "n gen_auto = 0" "n_samples gen_auto = 2"
    by (simp_all add: gen_auto_def)
  note t = next_sample_cycles [OF reachable_gen_auto h(1,2), unfolded h(3)]
  have s: "sample_of gen_auto 0 = Sample3 (column [1, 2, 0.5]) (-2) 7"
    "sample_of gen_auto 1 = Sample3 (column [3, 4, 0.5]) 2 8"
    by (simp_all add: sample_of_def gen_auto_def)
  have "fst (next_sample (after_calls (1 - 1) gen_auto)) = Inr (sample_of gen_auto (1 - 1))"
    using t [THEN conjunct1, rule_format, of 1] by simp
  moreover have "fst (next_sample (after_calls (2 - 1) gen_auto)) = Inr (sample_of gen_auto (2 - 1))"
    using t [THEN conjunct1, rule_format, of 2] by simp
  moreover have "fst (next_sample (after_calls (3 - 1) gen_auto)) = Inr (sample_of gen_auto ((3 - 1) mod 2))"
    using t [THEN conjunct2, THEN conjunct2, THEN conjunct2, rule_format, of 3] by simp
  moreover have "after_calls 2 gen_auto = gen_auto"
    using t by (rule conjunct2 [THEN conjunct2, THEN conjunct1])
  ultimately show ?thesis
    using reachable_gen_auto h s by simp
qed

text \<open>
  Claim C10. A generator that was constructed with \<^verbatim>\<open>auto_reset_generator=False\<close> and
  whose cursor is at 0 never resets it: after \<open>k\<close> consecutive calls of \<^verbatim>\<open>next_sample\<close>
  the cursor is \<open>k\<close>. Calls 1 to \<^verbatim>\<open>n_samples\<close> yield the samples at the indices 0 to
  \<open>n_samples - 1\<close>, and every later call, the \<open>(n_samples + 1)\<close>-th first, raises
  IndexError: a call raises exactly when more than \<^verbatim>\<open>n_samples\<close> calls have been made.
\<close>

theorem next_sample_without_reset:
  assumes "reachable g" and "\<not> auto_reset_generator g" and "n g = 0"
  shows "(\<forall>k. 1 \<le> k \<longrightarrow>
            fst (next_sample (after_calls (k - 1) g)) =
              (if k \<le> n_samples g then Inr (sample_of g (k - 1)) else Inl IndexError))
       \<and> (\<forall>k. n (after_calls k g) = int k)"
proof -
  have ok: "generator_ok g" using assms(1) by (rule reachable_ok)
  have st: "after_calls j g = g\<lparr>n := int j\<rparr>" for j
    using after_calls_manual [OF ok assms(2), of j] assms(3) by simp
  have res: "fst (next_sample (after_calls j g)) =
      (if j < n_samples g then Inr (sample_of g j) else Inl IndexError)" for j
  proof -
    have "generator_ok (g\<lparr>n := int j\<rparr>)"
      using ok assms(2) by (intro generator_ok_n) simp_all
    then show ?thesis
      using assms(2) by (simp add: st next_sample_manual)
  qed
  have "fst (next_sample (after_calls (k - 1) g)) =
      (if k \<le> n_samples g then Inr (sample_of g (k - 1)) else Inl IndexError)"
    if "1 \<le> k" for k
    using res [of "k - 1"] that by auto
  then show ?thesis
    by (simp add: st)
qed

text \<open>The two-sample generator without auto-reset: calls 1, 2 and 3.\<close>

theorem next_sample_without_reset_witness:
  "reachable gen_manual \<and> \<not> auto_reset_generator gen_manual \<and> n gen_manual = 0
   \<and> fst (next_sample (after_calls 0 gen_manual)) = Inr (Sample2 (column [1, 2]) (-2))
   \<and> fst (next_sample (after_calls 1 gen_manual)) = Inr (Sample2 (column [3, 4]) 2)
   \<and> fst (next_sample (after_calls 2 gen_manual)) = Inl IndexError
   \<and> n (after_calls 3 gen_manual) = 3"
proof -
  have h: "\<not> auto_reset_generator gen_manual" "n gen_manual = 0" "n_samples gen_manual = 2"
    by (simp_all add: gen_manual_def)
  note t = next_sample_without_reset [OF reachable_gen_manual h(1,2), unfolded h(3)]
  have s: "sample_of gen_manual 0 = Sample2 (column [1, 2]) (-2)"
    "sample_of gen_manual 1 = Sample2 (column [3, 4]) 2"
    by (simp_all add: sample_of_def gen_manual_def)
  have "fst (next_sample (after_calls (1 - 1) gen_manual)) =
      (if (1::nat) \<le> 2 then Inr (sample_of gen_manual (1 - 1)) else Inl IndexError)"
    using t [THEN conjunct1, rule_format, of 1] by simp
  moreover have "fst (next_sample (after_calls (2 - 1) gen_manual)) =
      (if (2::nat) \<le> 2 then Inr (sample_of gen_manual (2 - 1)) else Inl IndexError)"
    using t [THEN conjunct1, rule_format, of 2] by simp
  moreover have "fst (next_sample (after_calls (3 - 1) gen_manual)) =
      (if (3::nat) \<le> 2 then Inr (sample_of gen_manual (3 - 1)) else Inl IndexError)"
    using t [THEN conjunct1, rule_format, of 3] by simp
  moreover have "n (after_calls 3 gen_manual) = int 3"
    using t [THEN conjunct2, rule_format, of 3] .
  ultimately show ?thesis
    using reachable_gen_manual h s by simp
qed

subsection \<open>Shuffling\<close>

lemma shuffle_fields:
  assumes "generator_ok g" and "mset idx = mset (index g)"
  shows "fst (shuffle_samples idx g) = None"
    and "index (snd (shuffle_samples idx g)) = idx"
    and "features (snd (shuffle_samples idx g)) = map ((!) (features g)) idx"
    and "labels (snd (shuffle_samples idx g)) = map ((!) (labels g)) idx"
    and "labels_2 (snd (shuffle_samples idx g)) = map_option (\<lambda>l2. map ((!) l2) idx) (labels_2 g)"
  unfolding shuffle_samples_eq [OF assms] fst_conv snd_conv by simp_all

lemma permutation_of_range:
  assumes "mset idx = mset [0..<m]"
  shows "length idx = m" and "bij_betw ((!) idx) {..<m} {..<m}"
proof -
  show len: "length idx = m"
    using mset_eq_length [OF assms] by simp
  have "distinct idx"
    using assms mset_eq_imp_distinct_iff [of idx "[0..<m]"] by simp
  moreover have "set idx = {..<m}"
    using mset_eq_setD [OF assms] by (simp add: atLeast0LessThan)
  ultimately show "bij_betw ((!) idx) {..<m} {..<m}"
    using len by (intro bij_betw_nth) simp_all
qed

text \<open>
  Claim C3. \<^verbatim>\<open>shuffle_samples\<close> returns, and it applies one permutation to all the
  parallel series: the freshly shuffled \<^verbatim>\<open>_index\<close> is a permutation \<open>p\<close> of
  \<open>0..n_samples - 1\<close>, and for every position \<open>j\<close> the new \<^verbatim>\<open>features[j]\<close>,
  \<^verbatim>\<open>labels[j]\<close> and, when present, \<^verbatim>\<open>labels_2[j]\<close> are the old entries at
  \<open>p(j)\<close>. So the sample at \<open>j\<close> afterwards is the sample at \<open>p(j)\<close> before: each
  feature keeps its label and its secondary label.
\<close>

theorem shuffle_samples_common_permutation:
  assumes "reachable g" and "mset idx = mset (index g)"
  shows "fst (shuffle_samples idx g) = None
       \<and> index (snd (shuffle_samples idx g)) = idx
       \<and> mset idx = mset [0..<n_samples g]
       \<and> bij_betw ((!) idx) {..<n_samples g} {..<n_samples g}
       \<and> (\<forall>j<n_samples g.
            features (snd (shuffle_samples idx g)) ! j = features g ! (idx ! j)
          \<and> labels (snd (shuffle_samples idx g)) ! j = labels g ! (idx ! j)
          \<and> (case (labels_2 g, labels_2 (snd (shuffle_samples idx g))) of
                (None, None) \<Rightarrow> True
              | (Some l2, Some l2') \<Rightarrow> l2' ! j = l2 ! (idx ! j)
              | _ \<Rightarrow> False)
          \<and> sample_of (snd (shuffle_samples idx g)) j = sample_of g (idx ! j))"
proof -
  have ok: "generator_ok g" using assms(1) by (rule reachable_ok)
  note f = shuffle_fields [OF ok assms(2)]
  have p: "mset idx = mset [0..<n_samples g]"
    using ok assms(2) by (simp add: generator_ok_def)
  note q = permutation_of_range [OF p]
  have pt: "features (snd (shuffle_samples idx g)) ! j = features g ! (idx ! j)
          \<and> labels (snd (shuffle_samples idx g)) ! j = labels g ! (idx ! j)
          \<and> (case (labels_2 g, labels_2 (snd (shuffle_samples idx g))) of
                (None, None) \<Rightarrow> True
              | (Some l2, Some l2') \<Rightarrow> l2' ! j = l2 ! (idx ! j)
              | _ \<Rightarrow> False)
          \<and> sample_of (snd (shuffle_samples idx g)) j = sample_of g (idx ! j)"
    if "j < n_samples g" for j
  proof -
    from that q(1) have j: "j < length idx" by simp
    show ?thesis
      by (cases "labels_2 g") (simp_all add: f sample_of_def j)
  qed
  from pt have "\<forall>j<n_samples g.
            features (snd (shuffle_samples idx g)) ! j = features g ! (idx ! j)
          \<and> labels (snd (shuffle_samples idx g)) ! j = labels g ! (idx ! j)
          \<and> (case (labels_2 g, labels_2 (snd (shuffle_samples idx g))) of
                (None, None) \<Rightarrow> True
              | (Some l2, Some l2') \<Rightarrow> l2' ! j = l2 ! (idx ! j)
              | _ \<Rightarrow> False)
          \<and> sample_of (snd (shuffle_samples idx g)) j = sample_of g (idx ! j)"
    by blast
  with f(1,2) p q(2) show ?thesis
    by (intro conjI)
qed

text \<open>Swapping the two samples of the generator with secondary labels.\<close>

theorem shuffle_samples_common_permutation_witness:
  "reachable gen_auto \<and> mset [1, 0] = mset (index gen_auto)
   \<and> fst (shuffle_samples [1, 0] gen_auto) = None
   \<and> features (snd (shuffle_samples [1, 0] gen_auto)) ! 0 = column [3, 4, 0.5]
   \<and> labels (snd (shuffle_samples [1, 0] gen_auto)) ! 0 = 2
   \<and> sample_of (snd (shuffle_samples [1, 0] gen_auto)) 0 = Sample3 (column [3, 4, 0.5]) 2 8"
proof -
  have m: "mset [1, 0] = mset (index gen_auto)"
    by (simp add: gen_auto_def)
  note t = shuffle_samples_common_permutation [OF reachable_gen_auto m]
  have z: "(0::nat) < n_samples gen_auto" by (simp add: gen_auto_def)
  note pt = t [THEN conjunct2, THEN conjunct2, THEN conjunct2, THEN conjunct2, rule_format, OF z]
  have v: "features gen_auto ! ([1, 0] ! 0) = column [3, 4, 0.5]"
    "labels gen_auto ! ([1, 0] ! 0) = 2"
    "sample_of gen_auto ([1, 0] ! 0) = Sample3 (column [3, 4, 0.5]) 2 8"
    by (simp_all add: gen_auto_def sample_of_def)
  from pt v have "features (snd (shuffle_samples [1, 0] gen_auto)) ! 0 = column [3, 4, 0.5]"
    "labels (snd (shuffle_samples [1, 0] gen_auto)) ! 0 = 2"
    "sample_of (snd (shuffle_samples [1, 0] gen_auto)) 0 = Sample3 (column [3, 4, 0.5]) 2 8"
    by simp_all
  with reachable_gen_auto m t [THEN conjunct1] show ?thesis
    by (intro conjI)
qed

subsection \<open>Features and labels stored by the constructor\<close>

lemma parse_feature_vector:
  "parse_feature (vector v) True = Inr (column (v @ [0.5]))"
  "parse_feature (vector v) False = Inr (column v)"
  by (cases v; simp add: parse_feature_def vector_def column_def)+

lemma parse_features_vectors:
  "parse_features (map vector vs) True = Inr (map (\<lambda>v. column (v @ [0.5])) vs)"
  "parse_features (map vector vs) False = Inr (map column vs)"
  by (induction vs) (simp_all add: parse_feature_vector)

lemma shape0_column: "shape0 (column v) = Inr (length v)"
  by (simp add: column_def)

lemma init_n_nodes:
  assumes "DataGenerator_init L fs ls ls2 ar gn pc = Inr g"
  shows "features g \<noteq> []" and "shape0 (features g ! 0) = Inr (n_nodes g)"
  using assms
  by (auto simp: DataGenerator_init_def getitem_def split: if_splits sum.splits option.splits)

lemma init_vectors_succeeds:
  assumes "length vs = length ls" and "ls \<noteq> []"
    and "case ls2 of None \<Rightarrow> True | Some l2 \<Rightarrow> length l2 = length ls"
  shows "\<exists>g. DataGenerator_init L (map vector vs) ls ls2 ar gn False = Inr g"
proof -
  define fs' where "fs' = (if gn then map (\<lambda>v. column (v @ [0.5])) vs else map column vs)"
  have p: "parse_features (map vector vs) gn = Inr fs'"
    by (simp add: fs'_def parse_features_vectors)
  from assms(1,2) obtain v vs' where vs: "vs = v # vs'" by (cases vs) auto
  have g0: "getitem fs' 0 = Inr (hd fs')"
    by (simp add: fs'_def vs getitem_def)
  have "\<exists>k. shape0 (hd fs') = Inr k"
    by (simp add: fs'_def vs shape0_column)
  then obtain k where s: "shape0 (hd fs') = Inr k" ..
  from assms(2) obtain m where m: "py_min (map (t_abs L) ls) = Inr m"
    by (cases ls) auto
  show ?thesis
    using assms(1,3) by (cases ls2) (simp_all add: DataGenerator_init_def p m g0 s)
qed

text \<open>
  Claim C8. With \<^verbatim>\<open>pre_convolved=True\<close> the constructor stores the features exactly as
  given. With \<^verbatim>\<open>pre_convolved=False\<close> and \<^verbatim>\<open>global_node=True\<close> every stored feature
  is the input vector with the constant 0.5 as one more, final entry, as a column, and
  \<^verbatim>\<open>n_nodes\<close> is the length of the first input vector plus one; with
  \<^verbatim>\<open>global_node=False\<close> it is the input vector unchanged, as a column. Construction
  from vectors succeeds whenever the labels are not empty and the lengths agree.
\<close>

theorem stored_features:
  "(DataGenerator_init L fs ls ls2 ar gn True = Inr g \<longrightarrow> features g = fs)
   \<and> (DataGenerator_init L (map vector vs) ls ls2 ar True False = Inr g \<longrightarrow>
        features g = map (\<lambda>v. column (v @ [0.5])) vs \<and> n_nodes g = length (hd vs) + 1)
   \<and> (DataGenerator_init L (map vector vs) ls ls2 ar False False = Inr g \<longrightarrow>
        features g = map column vs \<and> n_nodes g = length (hd vs))
   \<and> (length vs = length ls \<and> ls \<noteq> [] \<and>
        (case ls2 of None \<Rightarrow> True | Some l2 \<Rightarrow> length l2 = length ls) \<longrightarrow>
        (\<exists>g'. DataGenerator_init L (map vector vs) ls ls2 ar gn False = Inr g'))"
proof (intro conjI impI)
  assume "DataGenerator_init L fs ls ls2 ar gn True = Inr g"
  from init_Inr(10) [OF this] show "features g = fs" by simp
next
  assume a: "DataGenerator_init L (map vector vs) ls ls2 ar True False = Inr g"
  from init_Inr(10) [OF a] show f: "features g = map (\<lambda>v. column (v @ [0.5])) vs"
    by (simp add: parse_features_vectors)
  from init_n_nodes [OF a] show "n_nodes g = length (hd vs) + 1"
    unfolding f by (cases vs) (simp_all add: shape0_column)
next
  assume a: "DataGenerator_init L (map vector vs) ls ls2 ar False False = Inr g"
  from init_Inr(10) [OF a] show f: "features g = map column vs"
    by (simp add: parse_features_vectors)
  from init_n_nodes [OF a] show "n_nodes g = length (hd vs)"
    unfolding f by (cases vs) (simp_all add: shape0_column)
next
  assume "length vs = length ls \<and> ls \<noteq> [] \<and>
        (case ls2 of None \<Rightarrow> True | Some l2 \<Rightarrow> length l2 = length ls)"
  then show "\<exists>g'. DataGenerator_init L (map vector vs) ls ls2 ar gn False = Inr g'"
    using init_vectors_succeeds [of vs ls ls2 L ar gn] by simp
qed

lemma init_gen_given:
  "DataGenerator_init int64_labels [Tensor [Tensor [Num 1, Num 2], Tensor [Num 3, Num 4]]] [1] None True True True
     = Inr gen_given"
  by (simp add: init_simps gen_given_def)

text \<open>The three small generators, one for each way of storing the features.\<close>

theorem stored_features_witness:
  "DataGenerator_init int64_labels [Tensor [Tensor [Num 1, Num 2], Tensor [Num 3, Num 4]]] [1] None True True True
     = Inr gen_given
   \<and> features gen_given = [Tensor [Tensor [Num 1, Num 2], Tensor [Num 3, Num 4]]]
   \<and> DataGenerator_init int64_labels (map vector [[1, 2], [3, 4]]) [-3, 1] (Some [7, 8]) True True False
     = Inr gen_auto
   \<and> features gen_auto = [column [1, 2, 0.5], column [3, 4, 0.5]] \<and> n_nodes gen_auto = 3
   \<and> DataGenerator_init int64_labels (map vector [[1, 2], [3, 4]]) [-3, 1] None False False False
     = Inr gen_manual
   \<and> features gen_manual = [column [1, 2], column [3, 4]] \<and> n_nodes gen_manual = 2
   \<and> (\<exists>g'. DataGenerator_init int64_labels (map vector [[1, 2], [3, 4]]) [-3, 1] None False False False = Inr g')"
proof -
  have a: "DataGenerator_init int64_labels (map vector [[1, 2], [3, 4]]) [-3, 1] (Some [7, 8]) True True False
     = Inr gen_auto"
    using init_gen_auto by simp
  have m: "DataGenerator_init int64_labels (map vector [[1, 2], [3, 4]]) [-3, 1] None False False False
     = Inr gen_manual"
    using init_gen_manual by simp
  have "features gen_given = [Tensor [Tensor [Num 1, Num 2], Tensor [Num 3, Num 4]]]"
    using stored_features [THEN conjunct1, rule_format, OF init_gen_given] .
  moreover have "features gen_auto = [column [1, 2, 0.5], column [3, 4, 0.5]] \<and> n_nodes gen_auto = 3"
    using stored_features [THEN conjunct2, THEN conjunct1, rule_format, OF a] by simp
  moreover have "features gen_manual = [column [1, 2], column [3, 4]] \<and> n_nodes gen_manual = 2"
    using stored_features [THEN conjunct2, THEN conjunct2, THEN conjunct1, rule_format, OF m] by simp
  moreover have "\<exists>g'. DataGenerator_init int64_labels (map vector [[1, 2], [3, 4]]) [-3, 1] None False False False = Inr g'"
    using stored_features [THEN conjunct2, THEN conjunct2, THEN conjunct2, rule_format,
      where vs = "[[1, 2], [3, 4]]" and ls = "[-3, 1]" and ?ls2.0 = None and ar = False
        and gn = False and L = int64_labels]
    by simp
  ultimately show ?thesis
    using init_gen_given a m by (intro conjI) simp_all
qed

subsection \<open>The label shift\<close>



subsection \<open>Assertions of the constructor and the invariant\<close>





section \<open>Properties of MetricAccumulator\<close>

lemmas append_defs =
  append_training_data_loss_def append_training_data_acc_def append_testing_data_loss_def
  append_testing_data_acc_def append_training_data_loss_grads_def
  append_training_data_acc_grads_def append_testing_data_loss_grads_def
  append_testing_data_acc_grads_def

lemma getitem_last: "xs \<noteq> [] \<Longrightarrow> getitem xs (- 1) = Inr (last xs)"
  by (cases xs rule: rev_cases) (simp_all add: getitem_def nat_add_distrib)

lemma getitem_first: "xs \<noteq> [] \<Longrightarrow> getitem xs 0 = Inr (hd xs)"
  by (cases xs) (simp_all add: getitem_def)

lemma getitem_empty: "getitem [] i = Inl IndexError"
  by (simp add: getitem_def)

subsection \<open>The slice and the slope of metric_gradient\<close>

lemma metric_gradient_eq:
  "metric_gradient A m x = window_slope A (slice_from x (- gradient_batch m))"
  by (cases "slice_from x (- gradient_batch m) = []")
     (simp_all add: metric_gradient_def Let_def getitem_last getitem_first getitem_empty
        window_slope_def)

lemma slice_from_positive: "0 < b \<Longrightarrow> slice_from x (- b) = trailing_window (nat b) x"
proof -
  assume b: "0 < b"
  have "nat (max (int (length x) - b) 0) = length x - nat b"
    using b by (simp add: max_def nat_diff_distrib')
  with b show ?thesis
    by (simp add: slice_from_def trailing_window_def Let_def)
qed

lemma slice_from_zero: "slice_from x 0 = x"
  by (simp add: slice_from_def)

lemma slice_from_negative: "b < 0 \<Longrightarrow> slice_from x (- b) = drop (nat (- b)) x"
  by (simp add: slice_from_def Let_def min_def)

lemma trailing_window_length: "length (trailing_window b x) = min b (length x)"
  by (auto simp: trailing_window_def)

lemma trailing_window_suffix: "\<exists>ys. x = ys @ trailing_window b x"
  unfolding trailing_window_def by (metis append_take_drop_id)

lemma metric_gradient_update [simp]:
  "metric_gradient A (training_data_loss_update f0 m) = metric_gradient A m"
  "metric_gradient A (training_data_acc_update f1 m) = metric_gradient A m"
  "metric_gradient A (testing_data_loss_update f2 m) = metric_gradient A m"
  "metric_gradient A (testing_data_acc_update f3 m) = metric_gradient A m"
  "metric_gradient A (training_data_loss_grads_update f4 m) = metric_gradient A m"
  "metric_gradient A (training_data_acc_grads_update f5 m) = metric_gradient A m"
  "metric_gradient A (testing_data_loss_grads_update f6 m) = metric_gradient A m"
  "metric_gradient A (testing_data_acc_grads_update f7 m) = metric_gradient A m"
  by (simp_all add: fun_eq_iff metric_gradient_def)

subsection \<open>The statements of add\<close>

text \<open>Each statement of \<^verbatim>\<open>add\<close> and \<^verbatim>\<open>_all_grads\<close>, followed by the rest of the method.\<close>

lemma append_metric_eq:
  "append_training_data_loss r m =
     (if 0 < length r then (None, m\<lparr>training_data_loss := training_data_loss m @ [r ! 0]\<rparr>)
      else (Some IndexError, m))"
  "append_training_data_acc r m =
     (if 1 < length r then (None, m\<lparr>training_data_acc := training_data_acc m @ [r ! 1]\<rparr>)
      else (Some IndexError, m))"
  "append_testing_data_loss r m =
     (if 2 < length r then (None, m\<lparr>testing_data_loss := testing_data_loss m @ [r ! 2]\<rparr>)
      else (Some IndexError, m))"
  "append_testing_data_acc r m =
     (if 3 < length r then (None, m\<lparr>testing_data_acc := testing_data_acc m @ [r ! 3]\<rparr>)
      else (Some IndexError, m))"
  using getitem_nat [of r 0] getitem_nat [of r 1] getitem_nat [of r 2] getitem_nat [of r 3]
  by (simp_all add: append_defs)

lemma then_run_append:
  "then_run (append_training_data_loss r) s m =
     (if 0 < length r then s (m\<lparr>training_data_loss := training_data_loss m @ [r ! 0]\<rparr>)
      else (Some IndexError, m))"
  "then_run (append_training_data_acc r) s m =
     (if 1 < length r then s (m\<lparr>training_data_acc := training_data_acc m @ [r ! 1]\<rparr>)
      else (Some IndexError, m))"
  "then_run (append_testing_data_loss r) s m =
     (if 2 < length r then s (m\<lparr>testing_data_loss := testing_data_loss m @ [r ! 2]\<rparr>)
      else (Some IndexError, m))"
  "then_run (append_testing_data_acc r) s m =
     (if 3 < length r then s (m\<lparr>testing_data_acc := testing_data_acc m @ [r ! 3]\<rparr>)
      else (Some IndexError, m))"
  "then_run (append_training_data_loss_grads A) s m =
     (case metric_gradient A m (training_data_loss m) of
        Inl e \<Rightarrow> (Some e, m)
      | Inr v \<Rightarrow> s (m\<lparr>training_data_loss_grads := training_data_loss_grads m @ [v]\<rparr>))"
  "then_run (append_training_data_acc_grads A) s m =
     (case metric_gradient A m (training_data_acc m) of
        Inl e \<Rightarrow> (Some e, m)
      | Inr v \<Rightarrow> s (m\<lparr>training_data_acc_grads := training_data_acc_grads m @ [v]\<rparr>))"
  "then_run (append_testing_data_loss_grads A) s m =
     (case metric_gradient A m (testing_data_loss m) of
        Inl e \<Rightarrow> (Some e, m)
      | Inr v \<Rightarrow> s (m\<lparr>testing_data_loss_grads := testing_data_loss_grads m @ [v]\<rparr>))"
  by (simp_all add: then_run_def append_metric_eq append_defs split: sum.splits)

lemmas add_unfold = add_def all_grads_def then_run_append append_testing_data_acc_grads_def

text \<open>The accumulator that a call of \<^verbatim>\<open>add\<close> leaves when it returns.\<close>

lemma add_returns:
  "fst (add A r m) = None \<longrightarrow>
     (\<exists>g0 g1 g2 g3.
        3 < length r
      \<and> metric_gradient A m (training_data_loss m @ [r ! 0]) = Inr g0
      \<and> metric_gradient A m (training_data_acc m @ [r ! 1]) = Inr g1
      \<and> metric_gradient A m (testing_data_loss m @ [r ! 2]) = Inr g2
      \<and> metric_gradient A m (testing_data_acc m @ [r ! 3]) = Inr g3
      \<and> snd (add A r m) =
          m\<lparr>training_data_loss := training_data_loss m @ [r ! 0],
            training_data_acc := training_data_acc m @ [r ! 1],
            testing_data_loss := testing_data_loss m @ [r ! 2],
            testing_data_acc := testing_data_acc m @ [r ! 3],
            training_data_loss_grads := training_data_loss_grads m @ [g0],
            training_data_acc_grads := training_data_acc_grads m @ [g1],
            testing_data_loss_grads := testing_data_loss_grads m @ [g2],
            testing_data_acc_grads := testing_data_acc_grads m @ [g3]\<rparr>)"
  by (simp add: add_unfold split: sum.splits)

text \<open>Whether it returns or raises, a call leaves each series as it was or one longer.\<close>

lemma add_extends:
  "list_all2 (\<lambda>old new. new = old \<or> (\<exists>v. new = old @ [v])) (series m) (series (snd (add A r m)))"
  by (simp add: series_def add_unfold split: sum.splits)

lemma add_gradient_batch: "gradient_batch (snd (add A r m)) = gradient_batch m"
  by (simp add: add_unfold split: sum.splits)

text \<open>
  A gradient series is left as it was, or one value longer: the slope of its metric
  series, which by then has its new entry.
\<close>

lemma add_gradients:
  "training_data_loss_grads (snd (add A r m)) = training_data_loss_grads m
     \<or> appended_slope A (gradient_batch m) (training_data_loss (snd (add A r m)))
          (training_data_loss_grads m) (training_data_loss_grads (snd (add A r m)))"
  "training_data_acc_grads (snd (add A r m)) = training_data_acc_grads m
     \<or> appended_slope A (gradient_batch m) (training_data_acc (snd (add A r m)))
          (training_data_acc_grads m) (training_data_acc_grads (snd (add A r m)))"
  "testing_data_loss_grads (snd (add A r m)) = testing_data_loss_grads m
     \<or> appended_slope A (gradient_batch m) (testing_data_loss (snd (add A r m)))
          (testing_data_loss_grads m) (testing_data_loss_grads (snd (add A r m)))"
  "testing_data_acc_grads (snd (add A r m)) = testing_data_acc_grads m
     \<or> appended_slope A (gradient_batch m) (testing_data_acc (snd (add A r m)))
          (testing_data_acc_grads m) (testing_data_acc_grads (snd (add A r m)))"
  by (simp_all add: add_unfold appended_slope_def metric_gradient_eq split: sum.splits)

lemma add_gradients_returned:
  assumes "fst (add A r m) = None"
  shows "appended_slope A (gradient_batch m) (training_data_loss (snd (add A r m)))
          (training_data_loss_grads m) (training_data_loss_grads (snd (add A r m)))"
    and "appended_slope A (gradient_batch m) (training_data_acc (snd (add A r m)))
          (training_data_acc_grads m) (training_data_acc_grads (snd (add A r m)))"
    and "appended_slope A (gradient_batch m) (testing_data_loss (snd (add A r m)))
          (testing_data_loss_grads m) (testing_data_loss_grads (snd (add A r m)))"
    and "appended_slope A (gradient_batch m) (testing_data_acc (snd (add A r m)))
          (testing_data_acc_grads m) (testing_data_acc_grads (snd (add A r m)))"
proof -
  from assms add_returns [of A r m] obtain g0 g1 g2 g3 where
    g: "metric_gradient A m (training_data_loss m @ [r ! 0]) = Inr g0"
       "metric_gradient A m (training_data_acc m @ [r ! 1]) = Inr g1"
       "metric_gradient A m (testing_data_loss m @ [r ! 2]) = Inr g2"
       "metric_gradient A m (testing_data_acc m @ [r ! 3]) = Inr g3"
    and s: "snd (add A r m) =
          m\<lparr>training_data_loss := training_data_loss m @ [r ! 0],
            training_data_acc := training_data_acc m @ [r ! 1],
            testing_data_loss := testing_data_loss m @ [r ! 2],
            testing_data_acc := testing_data_acc m @ [r ! 3],
            training_data_loss_grads := training_data_loss_grads m @ [g0],
            training_data_acc_grads := training_data_acc_grads m @ [g1],
            testing_data_loss_grads := testing_data_loss_grads m @ [g2],
            testing_data_acc_grads := testing_data_acc_grads m @ [g3]\<rparr>"
    by blast
  from g show
    "appended_slope A (gradient_batch m) (training_data_loss (snd (add A r m)))
          (training_data_loss_grads m) (training_data_loss_grads (snd (add A r m)))"
    "appended_slope A (gradient_batch m) (training_data_acc (snd (add A r m)))
          (training_data_acc_grads m) (training_data_acc_grads (snd (add A r m)))"
    "appended_slope A (gradient_batch m) (testing_data_loss (snd (add A r m)))
          (testing_data_loss_grads m) (testing_data_loss_grads (snd (add A r m)))"
    "appended_slope A (gradient_batch m) (testing_data_acc (snd (add A r m)))
          (testing_data_acc_grads m) (testing_data_acc_grads (snd (add A r m)))"
    unfolding s by (simp_all add: appended_slope_def metric_gradient_eq)
qed

subsection \<open>The small accumulator\<close>

lemmas eval_add = MetricAccumulator_init_def add_unfold metric_gradient_eq window_slope_def
  slice_from_def exact_metrics_def round_half_even_def

lemma add_all_acc_two:
  "add_all exact_metrics [[1, 2, 3, 4], [2, 3, 4, 5]] (MetricAccumulator_init 2)
     = ([None, None], acc_two)"
  by (simp add: acc_two_def eval_add)

subsection \<open>The values of the gradient series\<close>

text \<open>
  With \<^verbatim>\<open>gradient_batch = 0\<close> the last 0 recorded epochs are an empty window, which has
  no slope, and \<^verbatim>\<open>metric_gradient\<close> returns the slope over the whole series: three
  calls of \<^verbatim>\<open>add\<close> with the training losses 1, 2 and 4 return and append 0, 0.5 and 1.
\<close>

theorem gradient_batch_zero_counterexample:
  "gradient_batch (MetricAccumulator_init 0 :: real MetricAccumulator) = 0
   \<and> trailing_window 0 [1, 2, 4 :: real] = []
   \<and> window_slope exact_metrics (trailing_window 0 [1, 2, 4]) = Inl IndexError
   \<and> metric_gradient exact_metrics (MetricAccumulator_init 0) [1, 2, 4] = Inr 1
   \<and> fst (add_all exact_metrics [[1, 0, 0, 0], [2, 0, 0, 0], [4, 0, 0, 0]]
        (MetricAccumulator_init 0)) = [None, None, None]
   \<and> training_data_loss_grads (snd (add_all exact_metrics
        [[1, 0, 0, 0], [2, 0, 0, 0], [4, 0, 0, 0]] (MetricAccumulator_init 0))) = [0, 0.5, 1]"
  by (simp add: eval_add trailing_window_def)

text \<open>
  Claim C5, amended. Each value appended to a gradient series is the slope of the
  corresponding metric series, its new entry included, over the slice
  \<^verbatim>\<open>x[-gradient_batch:]\<close>: the last \<^verbatim>\<open>gradient_batch\<close> recorded epochs (or all of them if
  fewer have been recorded) when \<^verbatim>\<open>gradient_batch\<close> is positive, all recorded epochs when
  it is 0, and the epochs after the first \<^verbatim>\<open>-gradient_batch\<close> when it is negative. The
  slope is what Python computes for \<^verbatim>\<open>round((data[-1] - data[0]) / len(data), 2)\<close>: the
  change of the metric between the first and the last entry of the window, divided by the
  number of entries of the window and rounded to two decimal places. A call that returns
  appends such a value to each of the four gradient series.
\<close>

theorem gradients_are_slice_slopes:
  "metric_gradient A m x = window_slope A (slice_from x (- gradient_batch m))
   \<and> (0 < gradient_batch m \<longrightarrow>
        slice_from x (- gradient_batch m) = trailing_window (nat (gradient_batch m)) x)
   \<and> (gradient_batch m = 0 \<longrightarrow> slice_from x (- gradient_batch m) = x)
   \<and> (gradient_batch m < 0 \<longrightarrow>
        slice_from x (- gradient_batch m) = drop (nat (- gradient_batch m)) x)
   \<and> length (trailing_window b x) = min b (length x)
   \<and> (\<exists>ys. x = ys @ trailing_window b x)
   \<and> (training_data_loss_grads (snd (add A r m)) = training_data_loss_grads m
        \<or> appended_slope A (gradient_batch m) (training_data_loss (snd (add A r m)))
             (training_data_loss_grads m) (training_data_loss_grads (snd (add A r m))))
   \<and> (training_data_acc_grads (snd (add A r m)) = training_data_acc_grads m
        \<or> appended_slope A (gradient_batch m) (training_data_acc (snd (add A r m)))
             (training_data_acc_grads m) (training_data_acc_grads (snd (add A r m))))
   \<and> (testing_data_loss_grads (snd (add A r m)) = testing_data_loss_grads m
        \<or> appended_slope A (gradient_batch m) (testing_data_loss (snd (add A r m)))
             (testing_data_loss_grads m) (testing_data_loss_grads (snd (add A r m))))
   \<and> (testing_data_acc_grads (snd (add A r m)) = testing_data_acc_grads m
        \<or> appended_slope A (gradient_batch m) (testing_data_acc (snd (add A r m)))
             (testing_data_acc_grads m) (testing_data_acc_grads (snd (add A r m))))
   \<and> (fst (add A r m) = None \<longrightarrow>
        appended_slope A (gradient_batch m) (training_data_loss (snd (add A r m)))
          (training_data_loss_grads m) (training_data_loss_grads (snd (add A r m)))
      \<and> appended_slope A (gradient_batch m) (training_data_acc (snd (add A r m)))
          (training_data_acc_grads m) (training_data_acc_grads (snd (add A r m)))
      \<and> appended_slope A (gradient_batch m) (testing_data_loss (snd (add A r m)))
          (testing_data_loss_grads m) (testing_data_loss_grads (snd (add A r m)))
      \<and> appended_slope A (gradient_batch m) (testing_data_acc (snd (add A r m)))
          (testing_data_acc_grads m) (testing_data_acc_grads (snd (add A r m))))"
proof (intro conjI impI)
  show "metric_gradient A m x = window_slope A (slice_from x (- gradient_batch m))"
    by (rule metric_gradient_eq)
  show "slice_from x (- gradient_batch m) = trailing_window (nat (gradient_batch m)) x"
    if "0 < gradient_batch m"
    using that by (rule slice_from_positive)
  show "slice_from x (- gradient_batch m) = x" if "gradient_batch m = 0"
    using that by (simp add: slice_from_zero)
  show "slice_from x (- gradient_batch m) = drop (nat (- gradient_batch m)) x"
    if "gradient_batch m < 0"
    using that by (rule slice_from_negative)
  show "length (trailing_window b x) = min b (length x)"
    by (rule trailing_window_length)
  show "\<exists>ys. x = ys @ trailing_window b x"
    by (rule trailing_window_suffix)
  show "training_data_loss_grads (snd (add A r m)) = training_data_loss_grads m
        \<or> appended_slope A (gradient_batch m) (training_data_loss (snd (add A r m)))
             (training_data_loss_grads m) (training_data_loss_grads (snd (add A r m)))"
    by (rule add_gradients(1))
  show "training_data_acc_grads (snd (add A r m)) = training_data_acc_grads m
        \<or> appended_slope A (gradient_batch m) (training_data_acc (snd (add A r m)))
             (training_data_acc_grads m) (training_data_acc_grads (snd (add A r m)))"
    by (rule add_gradients(2))
  show "testing_data_loss_grads (snd (add A r m)) = testing_data_loss_grads m
        \<or> appended_slope A (gradient_batch m) (testing_data_loss (snd (add A r m)))
             (testing_data_loss_grads m) (testing_data_loss_grads (snd (add A r m)))"
    by (rule add_gradients(3))
  show "testing_data_acc_grads (snd (add A r m)) = testing_data_acc_grads m
        \<or> appended_slope A (gradient_batch m) (testing_data_acc (snd (add A r m)))
             (testing_data_acc_grads m) (testing_data_acc_grads (snd (add A r m)))"
    by (rule add_gradients(4))
next
  assume a: "fst (add A r m) = None"
  show "appended_slope A (gradient_batch m) (training_data_loss (snd (add A r m)))
          (training_data_loss_grads m) (training_data_loss_grads (snd (add A r m)))"
    using a by (rule add_gradients_returned(1))
  show "appended_slope A (gradient_batch m) (training_data_acc (snd (add A r m)))
          (training_data_acc_grads m) (training_data_acc_grads (snd (add A r m)))"
    using a by (rule add_gradients_returned(2))
  show "appended_slope A (gradient_batch m) (testing_data_loss (snd (add A r m)))
          (testing_data_loss_grads m) (testing_data_loss_grads (snd (add A r m)))"
    using a by (rule add_gradients_returned(3))
  show "appended_slope A (gradient_batch m) (testing_data_acc (snd (add A r m)))
          (testing_data_acc_grads m) (testing_data_acc_grads (snd (add A r m)))"
    using a by (rule add_gradients_returned(4))
qed

text \<open>
  A third call on the small accumulator, whose window \<open>[2, 4]\<close> has the slope 1; and
  the slices of \<open>[1, 2, 4]\<close> for the values 0 and \<open>-1\<close> of \<^verbatim>\<open>gradient_batch\<close>.
\<close>

theorem gradients_are_slice_slopes_witness:
  "0 < gradient_batch acc_two \<and> fst (add exact_metrics [4, 5, 6, 8] acc_two) = None
   \<and> slice_from [1, 2, 4 :: real] (- gradient_batch acc_two) = [2, 4]
   \<and> metric_gradient exact_metrics acc_two [1, 2, 4] = Inr 1
   \<and> training_data_loss_grads (snd (add exact_metrics [4, 5, 6, 8] acc_two)) = [0, 0.5, 1]
   \<and> gradient_batch (MetricAccumulator_init 0 :: real MetricAccumulator) = 0
   \<and> slice_from [1, 2, 4 :: real]
        (- gradient_batch (MetricAccumulator_init 0 :: real MetricAccumulator)) = [1, 2, 4]
   \<and> gradient_batch (MetricAccumulator_init (- 1) :: real MetricAccumulator) < 0
   \<and> slice_from [1, 2, 4 :: real]
        (- gradient_batch (MetricAccumulator_init (- 1) :: real MetricAccumulator)) = [2, 4]"
proof -
  have b: "0 < gradient_batch acc_two" by (simp add: acc_two_def)
  have r: "fst (add exact_metrics [4, 5, 6, 8] acc_two) = None"
    by (simp add: acc_two_def eval_add)
  note t = gradients_are_slice_slopes [of exact_metrics acc_two "[1, 2, 4]" _ "[4, 5, 6, 8]"]
  have w: "slice_from [1, 2, 4 :: real] (- gradient_batch acc_two) = [2, 4]"
    using t [THEN conjunct2, THEN conjunct1, rule_format, OF b]
    by (simp add: trailing_window_def acc_two_def)
  have g: "metric_gradient exact_metrics acc_two [1, 2, 4] = Inr 1"
    using t [THEN conjunct1] unfolding w
    by (simp add: window_slope_def exact_metrics_def round_half_even_def)
  have s: "training_data_loss (snd (add exact_metrics [4, 5, 6, 8] acc_two)) = [1, 2, 4]"
    by (simp add: acc_two_def eval_add)
  have "appended_slope exact_metrics (gradient_batch acc_two)
      (training_data_loss (snd (add exact_metrics [4, 5, 6, 8] acc_two)))
      (training_data_loss_grads acc_two)
      (training_data_loss_grads (snd (add exact_metrics [4, 5, 6, 8] acc_two)))"
    using t [THEN conjunct2, THEN conjunct2, THEN conjunct2, THEN conjunct2, THEN conjunct2,
      THEN conjunct2, THEN conjunct2, THEN conjunct2, THEN conjunct2, THEN conjunct2,
      rule_format, OF r]
    by (rule conjunct1)
  then have a: "training_data_loss_grads (snd (add exact_metrics [4, 5, 6, 8] acc_two))
      = [0, 0.5, 1]"
    unfolding s appended_slope_def w
    by (simp add: window_slope_def exact_metrics_def round_half_even_def acc_two_def)
  note z = gradients_are_slice_slopes
    [of exact_metrics "MetricAccumulator_init 0 :: real MetricAccumulator" "[1, 2, 4]"]
  have z0: "gradient_batch (MetricAccumulator_init 0 :: real MetricAccumulator) = 0"
    by (simp add: MetricAccumulator_init_def)
  have zs: "slice_from [1, 2, 4 :: real]
        (- gradient_batch (MetricAccumulator_init 0 :: real MetricAccumulator)) = [1, 2, 4]"
    using z [THEN conjunct2, THEN conjunct2, THEN conjunct1, rule_format, OF z0] .
  note q = gradients_are_slice_slopes
    [of exact_metrics "MetricAccumulator_init (- 1) :: real MetricAccumulator" "[1, 2, 4]"]
  have q0: "gradient_batch (MetricAccumulator_init (- 1) :: real MetricAccumulator) < 0"
    by (simp add: MetricAccumulator_init_def)
  have qs: "slice_from [1, 2, 4 :: real]
        (- gradient_batch (MetricAccumulator_init (- 1) :: real MetricAccumulator)) = [2, 4]"
    using q [THEN conjunct2, THEN conjunct2, THEN conjunct2, THEN conjunct1, rule_format, OF q0]
    by (simp add: MetricAccumulator_init_def)
  from b r w g a z0 zs q0 qs show ?thesis
    by (intro conjI)
qed

subsection \<open>Calls of add\<close>

lemma series_when_returns:
  assumes "fst (add A r m) = None"
  shows "list_all2 (\<lambda>old new. \<exists>v. new = old @ [v]) (series m) (series (snd (add A r m)))"
proof -
  from assms add_returns [of A r m] obtain g0 g1 g2 g3 where
    "snd (add A r m) =
          m\<lparr>training_data_loss := training_data_loss m @ [r ! 0],
            training_data_acc := training_data_acc m @ [r ! 1],
            testing_data_loss := testing_data_loss m @ [r ! 2],
            testing_data_acc := testing_data_acc m @ [r ! 3],
            training_data_loss_grads := training_data_loss_grads m @ [g0],
            training_data_acc_grads := training_data_acc_grads m @ [g1],
            testing_data_loss_grads := testing_data_loss_grads m @ [g2],
            testing_data_acc_grads := testing_data_acc_grads m @ [g3]\<rparr>"
    by blast
  then show ?thesis
    by (simp add: series_def)
qed

lemma add_all_Cons:
  "add_all A (r # rs) m =
     (fst (add A r m) # fst (add_all A rs (snd (add A r m))),
      snd (add_all A rs (snd (add A r m))))"
  by (simp split: prod.splits)

lemma add_all_snoc:
  "add_all A (rs @ [r]) m =
     (fst (add_all A rs m) @ [fst (add A r (snd (add_all A rs m)))],
      snd (add A r (snd (add_all A rs m))))"
  by (induction rs arbitrary: m) (simp_all add: add_all_Cons del: add_all.simps(2))

lemma add_all_lengths:
  "\<forall>out \<in> set (fst (add_all A rs m)). out = None \<Longrightarrow>
   map length (series (snd (add_all A rs m))) = map (\<lambda>s. length s + length rs) (series m)"
proof (induction rs arbitrary: m)
  case Nil
  then show ?case by simp
next
  case (Cons r rs)
  from Cons.prems have r: "fst (add A r m) = None"
    and rest: "\<forall>out \<in> set (fst (add_all A rs (snd (add A r m)))). out = None"
    by (simp_all add: add_all_Cons del: add_all.simps(2))
  from series_when_returns [OF r]
  have "map length (series (snd (add A r m))) = map (\<lambda>s. length s + 1) (series m)"
    by (auto simp: series_def)
  with Cons.IH [OF rest] show ?case
    by (simp add: add_all_Cons series_def del: add_all.simps(2))
qed

text \<open>
  A call with two results raises IndexError after appending to two of the eight series,
  and so does a call with four results on an accumulator whose \<^verbatim>\<open>gradient_batch\<close> is
  \<open>-1\<close>, after appending to four of them.
\<close>

theorem add_short_results_counterexample:
  "fst (add exact_metrics [1, 2] (MetricAccumulator_init 10)) = Some IndexError
   \<and> map length (series (snd (add exact_metrics [1, 2] (MetricAccumulator_init 10))))
       = [1, 1, 0, 0, 0, 0, 0, 0]
   \<and> fst (add exact_metrics [1, 2, 3, 4] (MetricAccumulator_init (- 1))) = Some IndexError
   \<and> map length (series (snd (add exact_metrics [1, 2, 3, 4] (MetricAccumulator_init (- 1)))))
       = [1, 1, 1, 1, 0, 0, 0, 0]"
  by (simp add: series_def eval_add)

text \<open>
  Claim C4, amended. A call of \<^verbatim>\<open>add\<close> that returns appends exactly one element to each
  of the eight series. No call, returning or raising, mutates or removes an existing
  entry: it leaves each series as it was or one element longer. Hence after \<open>N\<close> calls
  on a fresh accumulator that all returned, all eight series have length \<open>N\<close>, and the
  accumulator after the last call is the one before it with that call applied.
\<close>

theorem add_appends_to_every_series:
  fixes A :: "'a metric_ops"
  shows "(fst (add A r m) = None \<longrightarrow>
      list_all2 (\<lambda>old new. \<exists>v. new = old @ [v]) (series m) (series (snd (add A r m))))
   \<and> list_all2 (\<lambda>old new. new = old \<or> (\<exists>v. new = old @ [v])) (series m)
        (series (snd (add A r m)))
   \<and> ((\<forall>out \<in> set (fst (add_all A rs (MetricAccumulator_init b))). out = None) \<longrightarrow>
        (\<forall>s \<in> set (series (snd (add_all A rs (MetricAccumulator_init b)))).
           length s = length rs))
   \<and> snd (add_all A (rs @ [r]) m) = snd (add A r (snd (add_all A rs m)))"
proof (intro conjI impI)
  assume "fst (add A r m) = None"
  then show "list_all2 (\<lambda>old new. \<exists>v. new = old @ [v]) (series m) (series (snd (add A r m)))"
    by (rule series_when_returns)
next
  show "list_all2 (\<lambda>old new. new = old \<or> (\<exists>v. new = old @ [v])) (series m)
      (series (snd (add A r m)))"
    by (rule add_extends)
next
  assume a: "\<forall>out \<in> set (fst (add_all A rs (MetricAccumulator_init b))). out = None"
  have "map length (series (snd (add_all A rs (MetricAccumulator_init b)))) =
      map (\<lambda>s. length s + length rs) (series (MetricAccumulator_init b :: 'a MetricAccumulator))"
    using a by (rule add_all_lengths)
  also have "\<dots> = [length rs, length rs, length rs, length rs, length rs, length rs,
      length rs, length rs]"
    by (simp add: series_def MetricAccumulator_init_def)
  finally have e: "map length (series (snd (add_all A rs (MetricAccumulator_init b)))) =
      [length rs, length rs, length rs, length rs, length rs, length rs, length rs, length rs]" .
  show "\<forall>s \<in> set (series (snd (add_all A rs (MetricAccumulator_init b)))). length s = length rs"
  proof
    fix s assume "s \<in> set (series (snd (add_all A rs (MetricAccumulator_init b))))"
    then have "length s \<in> set (map length (series (snd (add_all A rs (MetricAccumulator_init b)))))"
      by simp
    then show "length s = length rs"
      unfolding e by simp
  qed
next
  show "snd (add_all A (rs @ [r]) m) = snd (add A r (snd (add_all A rs m)))"
    by (simp add: add_all_snoc)
qed

text \<open>A third call on the small accumulator, and the two calls that built it.\<close>

theorem add_appends_to_every_series_witness:
  "fst (add exact_metrics [4, 5, 6, 8] acc_two) = None
   \<and> length (training_data_loss (snd (add exact_metrics [4, 5, 6, 8] acc_two))) = 3
   \<and> length (testing_data_acc_grads (snd (add exact_metrics [4, 5, 6, 8] acc_two))) = 3
   \<and> fst (add_all exact_metrics [[1, 2, 3, 4], [2, 3, 4, 5]] (MetricAccumulator_init 2))
       = [None, None]
   \<and> length (testing_data_loss (snd (add_all exact_metrics [[1, 2, 3, 4], [2, 3, 4, 5]]
       (MetricAccumulator_init 2)))) = 2"
proof -
  note t = add_appends_to_every_series
    [of exact_metrics "[4, 5, 6, 8]" acc_two "[[1, 2, 3, 4], [2, 3, 4, 5]]" 2]
  have r: "fst (add exact_metrics [4, 5, 6, 8] acc_two) = None"
    by (simp add: acc_two_def eval_add)
  have "list_all2 (\<lambda>old new. \<exists>v. new = old @ [v]) (series acc_two)
      (series (snd (add exact_metrics [4, 5, 6, 8] acc_two)))"
    using t [THEN conjunct1] r by blast
  then have l: "length (training_data_loss (snd (add exact_metrics [4, 5, 6, 8] acc_two))) = 3"
    "length (testing_data_acc_grads (snd (add exact_metrics [4, 5, 6, 8] acc_two))) = 3"
    by (auto simp: series_def acc_two_def)
  have f: "fst (add_all exact_metrics [[1, 2, 3, 4], [2, 3, 4, 5]] (MetricAccumulator_init 2))
      = [None, None]"
    by (simp only: add_all_acc_two fst_conv)
  then have o: "\<forall>out \<in> set (fst (add_all exact_metrics [[1, 2, 3, 4], [2, 3, 4, 5]]
      (MetricAccumulator_init 2))). out = None"
    by (simp del: add_all.simps)
  have "\<forall>s \<in> set (series (snd (add_all exact_metrics [[1, 2, 3, 4], [2, 3, 4, 5]]
      (MetricAccumulator_init 2)))). length s = length [[1, 2, 3, 4], [2, 3, 4, 5::real]]"
    using t [THEN conjunct2, THEN conjunct2, THEN conjunct1] o by blast
  then have n: "length (testing_data_loss (snd (add_all exact_metrics
      [[1, 2, 3, 4], [2, 3, 4, 5]] (MetricAccumulator_init 2)))) = 2"
    by (simp add: series_def del: add_all.simps)
  from r l f n show ?thesis by (intro conjI)
qed

section \<open>Properties of R_or_S and of the models\<close>

subsection \<open>R_or_S\<close>

lemma R_or_S_Inr:
  "R_or_S pow2 le MIC boundary = Inr res \<Longrightarrow>
   length res = length MIC \<and>
   (\<forall>j<length MIC. \<exists>p c. pow2 (MIC ! j) = Inr p \<and> le p boundary = Inr c
      \<and> res ! j = (if c then 0 else 1))"
proof (induction MIC arbitrary: res)
  case Nil
  then show ?case by simp
next
  case (Cons i MIC)
  from Cons.prems obtain p c rest where p: "pow2 i = Inr p" and c: "le p boundary = Inr c"
    and rest: "R_or_S pow2 le MIC boundary = Inr rest"
    and res: "res = (if c then 0 else 1) # rest"
    by (auto split: sum.splits)
  from Cons.IH [OF rest] have len: "length rest = length MIC"
    and el: "\<And>j. j < length MIC \<Longrightarrow>
      \<exists>q d. pow2 (MIC ! j) = Inr q \<and> le q boundary = Inr d \<and> rest ! j = (if d then 0 else 1)"
    by simp_all
  have "\<exists>q d. pow2 ((i # MIC) ! j) = Inr q \<and> le q boundary = Inr d
      \<and> res ! j = (if d then 0 else 1)"
    if "j < length (i # MIC)" for j
  proof (cases j)
    case 0
    with p c res show ?thesis by simp
  next
    case (Suc k)
    with that el [of k] res show ?thesis by simp
  qed
  with len res show ?case by simp
qed

lemma R_or_S_returns:
  "\<forall>i \<in> set MIC. \<exists>p c. pow2 i = Inr p \<and> le p boundary = Inr c \<Longrightarrow>
   \<exists>res. R_or_S pow2 le MIC boundary = Inr res"
  by (induction MIC) auto

lemma R_or_S_raises:
  "j < length MIC \<Longrightarrow>
   \<forall>i<j. \<exists>p c. pow2 (MIC ! i) = Inr p \<and> le p boundary = Inr c \<Longrightarrow>
   pow2 (MIC ! j) = Inl e \<or> (\<exists>p. pow2 (MIC ! j) = Inr p \<and> le p boundary = Inl e) \<Longrightarrow>
   R_or_S pow2 le MIC boundary = Inl e"
proof (induction MIC arbitrary: j)
  case Nil
  then show ?case by simp
next
  case (Cons i MIC)
  show ?case
  proof (cases j)
    case 0
    with Cons.prems(3) show ?thesis by auto
  next
    case (Suc k)
    with Cons.prems(2) have "\<exists>p c. pow2 ((i # MIC) ! 0) = Inr p \<and> le p boundary = Inr c"
      by blast
    then obtain p c where p: "pow2 i = Inr p" "le p boundary = Inr c" by auto
    have "\<forall>l<k. \<exists>q d. pow2 (MIC ! l) = Inr q \<and> le q boundary = Inr d"
    proof (intro allI impI)
      fix l assume "l < k"
      then have "Suc l < j" using Suc by simp
      with Cons.prems(2)
      have "\<exists>q d. pow2 ((i # MIC) ! Suc l) = Inr q \<and> le q boundary = Inr d" by blast
      then show "\<exists>q d. pow2 (MIC ! l) = Inr q \<and> le q boundary = Inr d" by simp
    qed
    moreover have "k < length MIC"
      "pow2 (MIC ! k) = Inl e \<or> (\<exists>p. pow2 (MIC ! k) = Inr p \<and> le p boundary = Inl e)"
      using Cons.prems(1,3) Suc by simp_all
    ultimately have "R_or_S pow2 le MIC boundary = Inl e"
      using Cons.IH [of k] by blast
    with p show ?thesis by simp
  qed
qed

text \<open>
  For the float \<open>1024.0\<close> the power \<^verbatim>\<open>2 ** 1024.0\<close> raises OverflowError, and so does
  \<^verbatim>\<open>R_or_S([1024.0], 1)\<close>: no list is returned.
\<close>

theorem R_or_S_overflow_counterexample:
  "R_or_S pow2_whole_float le_float [1024] 1 = Inl OverflowError"
  by (simp add: pow2_whole_float_def)

text \<open>
  Claim C7, amended. For every list \<open>MIC\<close> of log2-transformed values and every
  boundary: if every power \<^verbatim>\<open>2 ** MIC[i]\<close> and its comparison with the boundary are
  computed, \<^verbatim>\<open>R_or_S(MIC, boundary)\<close> returns a list; a list that it returns is as long
  as \<open>MIC\<close>, and its \<open>i\<close>-th element is 0 (sensitive) if the computed power
  \<^verbatim>\<open>2 ** MIC[i]\<close> is \<^verbatim>\<open><= boundary\<close> and 1 (resistant) otherwise; and if a power or a
  comparison raises an exception, as \<^verbatim>\<open>2 ** MIC[i]\<close> does for a float from 1024 on,
  \<^verbatim>\<open>R_or_S\<close> raises the exception of the first such entry.
\<close>

theorem R_or_S_elementwise:
  "((\<forall>i \<in> set MIC. \<exists>p c. pow2 i = Inr p \<and> le p boundary = Inr c) \<longrightarrow>
      (\<exists>res'. R_or_S pow2 le MIC boundary = Inr res'))
   \<and> (R_or_S pow2 le MIC boundary = Inr res \<longrightarrow>
        length res = length MIC
      \<and> (\<forall>j<length MIC.
           \<exists>p c. pow2 (MIC ! j) = Inr p \<and> le p boundary = Inr c
             \<and> res ! j = (if c then 0 else 1)))
   \<and> (j < length MIC \<and> (\<forall>i<j. \<exists>p c. pow2 (MIC ! i) = Inr p \<and> le p boundary = Inr c)
        \<and> (pow2 (MIC ! j) = Inl e \<or> (\<exists>p. pow2 (MIC ! j) = Inr p \<and> le p boundary = Inl e)) \<longrightarrow>
        R_or_S pow2 le MIC boundary = Inl e)"
proof (intro conjI impI)
  assume "\<forall>i \<in> set MIC. \<exists>p c. pow2 i = Inr p \<and> le p boundary = Inr c"
  then show "\<exists>res'. R_or_S pow2 le MIC boundary = Inr res'"
    by (rule R_or_S_returns)
next
  assume a: "R_or_S pow2 le MIC boundary = Inr res"
  from R_or_S_Inr [OF a] show "length res = length MIC"
    and "\<forall>j<length MIC.
           \<exists>p c. pow2 (MIC ! j) = Inr p \<and> le p boundary = Inr c
             \<and> res ! j = (if c then 0 else 1)"
    by simp_all
next
  assume "j < length MIC \<and> (\<forall>i<j. \<exists>p c. pow2 (MIC ! i) = Inr p \<and> le p boundary = Inr c)
        \<and> (pow2 (MIC ! j) = Inl e \<or> (\<exists>p. pow2 (MIC ! j) = Inr p \<and> le p boundary = Inl e))"
  then show "R_or_S pow2 le MIC boundary = Inl e"
    using R_or_S_raises [of j MIC pow2 le boundary e] by blast
qed

text \<open>
  The log2 values \<open>-3\<close> and \<open>-2\<close> at the breakpoint of \<open>cfx\<close>, and the values
  \<open>-3\<close> and 1024.
\<close>

theorem R_or_S_elementwise_witness:
  "pow2_whole_float (- 3) = Inr 0.125 \<and> pow2_whole_float (- 2) = Inr 0.25
   \<and> breakpoints ''cfx'' = Some 0.125
   \<and> R_or_S pow2_whole_float le_float [- 3, - 2] 0.125 = Inr [0, 1]
   \<and> pow2_whole_float 1024 = Inl OverflowError
   \<and> R_or_S pow2_whole_float le_float [- 3, 1024] 0.125 = Inl OverflowError"
proof -
  have p: "pow2_whole_float (- 3) = Inr 0.125" "pow2_whole_float (- 2) = Inr 0.25"
    "pow2_whole_float 1024 = Inl OverflowError"
    by (simp_all add: pow2_whole_float_def power_int_minus field_simps)
  have c: "le_float 0.125 0.125 = Inr True" "le_float 0.25 0.125 = Inr False"
    by (simp_all add: le_float_def)
  have all: "\<forall>i \<in> set [- 3, - 2]. \<exists>q d. pow2_whole_float i = Inr q \<and> le_float q 0.125 = Inr d"
    using p(1,2) c by (metis empty_iff empty_set set_ConsD)
  note t = R_or_S_elementwise
    [where ?pow2.0 = pow2_whole_float and le = le_float and boundary = "0.125"]
  from t [where MIC = "[- 3, - 2]", THEN conjunct1] all
  obtain res where res: "R_or_S pow2_whole_float le_float [- 3, - 2] 0.125 = Inr res"
    by blast
  note u = t [where MIC = "[- 3, - 2]" and res = res, THEN conjunct2, THEN conjunct1,
    rule_format, OF res]
  have len: "length res = 2" using u [THEN conjunct1] by simp
  have "res ! 0 = 0"
    using u [THEN conjunct2, rule_format, of 0] p(1) by (auto simp: le_float_def)
  moreover have "res ! 1 = 1"
    using u [THEN conjunct2, rule_format, of 1] p(2) by (auto simp: le_float_def)
  ultimately have "res ! 0 = 0" "res ! 1 = 1" .
  with len have "res = [0, 1]"
    by (cases res; cases "tl res") auto
  with res have r: "R_or_S pow2_whole_float le_float [- 3, - 2] 0.125 = Inr [0, 1]"
    by simp
  have "\<exists>q d. pow2_whole_float ([- 3, 1024] ! i) = Inr q \<and> le_float q 0.125 = Inr d"
    if "i < 1" for i :: nat
  proof -
    from that have "[- 3, 1024] ! i = (- 3 :: int)" by simp
    with p(1) c(1) show ?thesis by metis
  qed
  then have h: "(1::nat) < length [- 3, 1024::int]
      \<and> (\<forall>i<1. \<exists>q d. pow2_whole_float ([- 3, 1024] ! i) = Inr q \<and> le_float q 0.125 = Inr d)
      \<and> (pow2_whole_float ([- 3, 1024] ! 1) = Inl OverflowError
         \<or> (\<exists>q. pow2_whole_float ([- 3, 1024] ! 1) = Inr q \<and> le_float q 0.125 = Inl OverflowError))"
    using p(3) by auto
  have o: "R_or_S pow2_whole_float le_float [- 3, 1024] 0.125 = Inl OverflowError"
    using t [where MIC = "[- 3, 1024]" and j = 1 and e = OverflowError, THEN conjunct2,
      THEN conjunct2] h by blast
  have "breakpoints ''cfx'' = Some 0.125"
    by (simp add: breakpoints_def)
  with p r o show ?thesis by (intro conjI)
qed

subsection \<open>The forward passes\<close>

text \<open>
  On the small model, with both draws of dropout keeping the entry and the input 1, the two
  stacked layers give \<open>-0.04\<close>; both forward passes go on through \<^verbatim>\<open>linear3\<close> and
  the nonlinearity, and return \<open>0.92\<close>.
\<close>

theorem forward_is_not_two_layers_counterexample:
  "VanillaNN_forward scalar_framework small_net True True 1 (None :: unit option) = 0.92
   \<and> fst (MICPredictor_forward scalar_framework small_net True True 1) = 0.92
   \<and> two_stacked_layers scalar_framework small_net True True 1 = - 0.04"
  by (simp add: VanillaNN_forward_def MICPredictor_forward_def two_stacked_layers_def
      scalar_framework_def small_net_def)

text \<open>
  Claim C6, amended. The forward pass of each model transposes the input and applies two
  stacked linear layers, each followed by a nonlinearity and dropout, and then a third
  linear layer, the entry \<^verbatim>\<open>[0][0]\<close> of whose output goes through the nonlinearity, with no
  dropout. \<^verbatim>\<open>VanillaNN\<close> returns this output; \<^verbatim>\<open>MICPredictor\<close> returns it together
  with the output of the two stacked layers.
\<close>

theorem forward_three_layers:
  "VanillaNN_forward F self k1 k2 x adj =
     F_leaky_relu F (getitem00 F (nn_Linear F (linear3 self)
       (two_stacked_layers F self k1 k2 (transpose01 F x))))
   \<and> MICPredictor_forward F self k1 k2 x =
     (VanillaNN_forward F self k1 k2 x adj, two_stacked_layers F self k1 k2 (transpose01 F x))"
  by (simp add: VanillaNN_forward_def MICPredictor_forward_def two_stacked_layers_def Let_def)

end
